(* ===== verification/Prelude.thy ===== *)
theory Prelude
  imports Main "HOL-Library.List_Lexorder" "HOL-Library.Char_ord" "HOL-Library.Sublist"
begin

text \<open>
  Shared vocabulary of the development. Go strings are byte sequences, so a file name is a
  HOL \<open>string\<close> (a list of 8-bit \<open>char\<close>s) and \<open><\<close> on names is Go's byte-wise string
  order (\<open>List_Lexorder\<close> over \<open>Char_ord\<close>). A path is the list of its components below
  the file-system root: \<open>filepath.Join(dir, name)\<close> is \<open>dir @ [name]\<close>,
  \<open>filepath.Dir\<close> is \<open>butlast\<close> and \<open>filepath.Base\<close> is \<open>last\<close>. The collections
  declared here gather the rewrite rules the component theories share.
\<close>

type_synonym name = string
type_synonym path = "name list"

named_theorems name_simps "rewrite rules for the character classes of file names"
named_theorems fs_simps "rewrite rules for lookups in the file tree"

subsection \<open>Lists\<close>

text \<open>Size of an element of a nested association list, for termination proofs over trees.\<close>

lemma size_list_pair_elem:
  "(a, b) \<in> set xs \<Longrightarrow> f b < Suc (size_list (size_prod g f) xs)"
proof (induction xs)
  case Nil
  then show ?case by simp
next
  case (Cons x xs)
  then show ?case by (cases x) auto
qed

lemma map_of_filter_neq [simp]:
  "map_of (filter (\<lambda>(k, v). k \<noteq> x) xs) y = (if y = x then None else map_of xs y)"
  by (induction xs) auto

lemma distinct_map_fst_filter [intro]:
  "distinct (map fst xs) \<Longrightarrow> distinct (map fst (filter P xs))"
  by (induction xs) auto

lemma drop_shorter:
  "xs \<noteq> [] \<Longrightarrow> 0 < n \<Longrightarrow> length (drop n xs) < length xs"
  by (cases xs) auto

lemma prefix_snoc_prefix: "prefix (p @ [k]) x \<Longrightarrow> prefix p x"
  using prefix_order.trans [of p "p @ [k]" x] by simp

lemma prefix_snoc_distinct:
  "prefix (p @ [k]) x \<Longrightarrow> prefix (p @ [k']) x \<Longrightarrow> k = k'"
  by (auto simp: prefix_def)

lemma in_set_map_filter: "y \<in> set (List.map_filter f xs) \<longleftrightarrow> (\<exists>x \<in> set xs. f x = Some y)"
  by (induction xs) (auto split: option.splits)

lemma sorted_wrt_map_filter:
  "sorted_wrt P xs \<Longrightarrow> (\<And>x y a b. f x = Some a \<Longrightarrow> f y = Some b \<Longrightarrow> P x y \<Longrightarrow> Q a b) \<Longrightarrow>
     sorted_wrt Q (List.map_filter f xs)"
  by (induction xs) (auto simp: in_set_map_filter split: option.splits)

lemma prefix_length_le_iff [simp]: "prefix p s \<Longrightarrow> length s \<le> length p \<longleftrightarrow> p = s"
  by (auto elim: prefixE)

lemma suffix_tl_iff: "suffix xs ys \<longleftrightarrow> xs = ys \<or> (ys \<noteq> [] \<and> suffix xs (tl ys))"
  by (cases ys) (auto simp: suffix_Cons)

lemma parallel_siblings [simp]: "parallel (p @ [x]) (p @ [y]) \<longleftrightarrow> x \<noteq> y"
  by (auto simp: parallel_def)

lemma parallel_sym: "parallel p q \<Longrightarrow> parallel q p"
  by (auto simp: parallel_def)

subsection \<open>Arithmetic\<close>

text \<open>A bit mask \<open>b AND (m - 1)\<close> on a byte in a known block of width \<open>m\<close>.\<close>

lemma mod_offset: "a * m \<le> b \<Longrightarrow> b < a * m + m \<Longrightarrow> (b::nat) mod m = b - a * m"
proof -
  assume h: "a * m \<le> b" "b < a * m + m"
  then obtain k where b: "b = a * m + k" and k: "k < m" by (metis add_less_cancel_left le_Suc_ex)
  then show ?thesis by simp
qed

lemma strict_prefix_butlast: "xs \<noteq> [] \<Longrightarrow> strict_prefix (butlast xs) xs"
  by (metis append_butlast_last_id append_self_conv not_Cons_self2 prefix_def strict_prefix_def)

lemma sibling_prefix:
  "butlast b = butlast a \<Longrightarrow> a \<noteq> [] \<Longrightarrow> prefix q b \<Longrightarrow> q \<noteq> b \<Longrightarrow> prefix q a"
proof -
  assume e: "butlast b = butlast a" and a: "a \<noteq> []" and p: "prefix q b" and n: "q \<noteq> b"
  then have "b \<noteq> []" by auto
  then have "prefix q (butlast b)"
    using p n by (metis append_butlast_last_id prefix_snoc)
  then have "prefix q (butlast a)" by (simp add: e)
  then show "prefix q a" using a by (metis append_butlast_last_id prefix_prefix)
qed

lemma distinct_concat_map_keys:
  assumes "distinct (map fst xs)" "\<forall>x \<in> set xs. distinct (f x)"
    "\<forall>x \<in> set xs. \<forall>y \<in> set xs. fst x \<noteq> fst y \<longrightarrow> set (f x) \<inter> set (f y) = {}"
  shows "distinct (concat (map f xs))"
  using assms
proof (induction xs)
  case (Cons a xs)
  have "fst a \<noteq> fst y" if "y \<in> set xs" for y using Cons.prems(1) that by (auto simp: image_iff)
  then have "set (f a) \<inter> set (concat (map f xs)) = {}" using Cons.prems(3) by fastforce
  then show ?case using Cons by auto
qed simp

lemma parallel_append: "parallel a q \<Longrightarrow> parallel (a @ x) q"
  by (auto simp: parallel_def prefix_append dest: append_prefixD)

lemma length_filter_drop: "length (filter P (drop n xs)) \<le> length (filter P xs)"
  by (metis append_take_drop_id filter_append length_append le_add2)

end
