(* ===== verification/Utf8.thy ===== *)
theory Utf8
  imports Prelude
begin

text \<open>
  Go's \<open>unicode/utf8.DecodeRuneInString\<close>, which the regular-expression engine
  (\<open>regexp\<close>, used by \<open>src/rename.go\<close>) and \<open>path/filepath.Match\<close> (used by
  \<open>src/compress.go\<close>) call to step through a string one rune at a time. It returns the
  first rune and its width in bytes; an ill-formed sequence decodes as \<open>RuneError\<close> of
  width 1, and the empty string as \<open>RuneError\<close> of width 0. The tables \<open>first\<close> and
  \<open>acceptRanges\<close> of \<open>utf8.go\<close> are the functions \<open>seq_size\<close>, \<open>accept_lo\<close> and
  \<open>accept_hi\<close>; the masks \<open>s AND (2^k - 1)\<close> are written \<open>s mod 2^k\<close>.
\<close>

definition RuneError :: nat where
  "RuneError = 0xFFFD"

definition RuneSelf :: nat where
  "RuneSelf = 0x80"

text \<open>Size of the sequence a leading byte announces: 1 for ASCII, 0 for a byte that cannot
  start a sequence (\<open>xx\<close> in the table \<open>first\<close>).\<close>

definition seq_size :: "nat \<Rightarrow> nat" where
  "seq_size b =
     (if b < 0x80 then 1 else if b < 0xC2 then 0 else if b < 0xE0 then 2
      else if b < 0xF0 then 3 else if b < 0xF5 then 4 else 0)"

definition accept_lo :: "nat \<Rightarrow> nat" where
  "accept_lo b = (if b = 0xE0 then 0xA0 else if b = 0xF0 then 0x90 else 0x80)"

definition accept_hi :: "nat \<Rightarrow> nat" where
  "accept_hi b = (if b = 0xED then 0x9F else if b = 0xF4 then 0x8F else 0xBF)"

definition cont_byte :: "nat \<Rightarrow> bool" where
  "cont_byte b \<longleftrightarrow> 0x80 \<le> b \<and> b \<le> 0xBF"

fun DecodeRuneInString :: "string \<Rightarrow> nat \<times> nat" where
  "DecodeRuneInString [] = (RuneError, 0)"
| "DecodeRuneInString (c0 # s) =
    (let s0 = of_char c0; sz = seq_size s0 in
     if sz = 1 then (s0, 1)
     else if sz = 0 then (RuneError, 1)
     else if length s < sz - 1 then (RuneError, 1)
     else let s1 = of_char (s ! 0) in
       if s1 < accept_lo s0 \<or> accept_hi s0 < s1 then (RuneError, 1)
       else if sz \<le> 2 then ((s0 mod 32) * 64 + s1 mod 64, 2)
       else let s2 = of_char (s ! 1) in
         if \<not> cont_byte s2 then (RuneError, 1)
         else if sz \<le> 3 then ((s0 mod 16) * 4096 + (s1 mod 64) * 64 + s2 mod 64, 3)
         else let s3 = of_char (s ! 2) in
           if \<not> cont_byte s3 then (RuneError, 1)
           else ((s0 mod 8) * 262144 + (s1 mod 64) * 4096 + (s2 mod 64) * 64 + s3 mod 64, 4))"

text \<open>\<open>utf8.EncodeRune\<close>, the encoder the decoder inverts, as a reference for the
  properties of the name policy (the tools never encode). A rune above \<open>MaxRune\<close> or a
  surrogate is encoded as \<open>RuneError\<close>; the \<open>OR\<close> of a marker with the high bits
  is written as a sum, since the bits are disjoint in each case.\<close>

definition EncodeRune :: "nat \<Rightarrow> string" where
  "EncodeRune r =
     (if r \<le> 0x7F then [char_of r]
      else if r \<le> 0x7FF then [char_of (0xC0 + r div 64), char_of (0x80 + r mod 64)]
      else
        (let r' = (if 0x10FFFF < r \<or> (0xD800 \<le> r \<and> r \<le> 0xDFFF) then RuneError else r) in
         if r' \<le> 0xFFFF
         then [char_of (0xE0 + r' div 4096), char_of (0x80 + r' div 64 mod 64), char_of (0x80 + r' mod 64)]
         else [char_of (0xF0 + r' div 262144), char_of (0x80 + r' div 4096 mod 64),
               char_of (0x80 + r' div 64 mod 64), char_of (0x80 + r' mod 64)]))"

declare DecodeRuneInString.simps(2) [simp del]

lemmas decode_rune_simps = DecodeRuneInString.simps seq_size_def accept_lo_def accept_hi_def
  cont_byte_def RuneError_def

abbreviation rune_width :: "string \<Rightarrow> nat" where
  "rune_width s \<equiv> snd (DecodeRuneInString s)"

subsection \<open>Width of a decoded rune\<close>

lemma seq_size_cases: "seq_size b \<in> {0, 1, 2, 3, 4}"
  by (simp add: DecodeRuneInString.simps seq_size_def)

lemma rune_width_bounds:
  assumes "s \<noteq> []"
  shows "1 \<le> rune_width s \<and> rune_width s \<le> min 4 (length s)"
proof -
  obtain c t where s: "s = c # t" using assms by (cases s) auto
  have "seq_size (of_char c) \<in> {0, 1, 2, 3, 4}" by (rule seq_size_cases)
  then show ?thesis
    unfolding s by (auto simp: Let_def DecodeRuneInString.simps)
qed

lemma rune_width_pos [simp]: "s \<noteq> [] \<Longrightarrow> 0 < rune_width s"
  using rune_width_bounds by fastforce

lemma DecodeRuneInString_width_pos: "DecodeRuneInString s = (r, n) \<Longrightarrow> s \<noteq> [] \<Longrightarrow> 0 < n"
  using rune_width_pos [of s] by simp

lemma rune_width_le_length: "rune_width s \<le> length s"
  using rune_width_bounds [of s] by (cases "s = []") auto

lemma decode_ascii [simp]:
  "of_char c < (0x80 :: nat) \<Longrightarrow> DecodeRuneInString (c # s) = (of_char c, 1)"
  by (simp add: DecodeRuneInString.simps seq_size_def)


text \<open>A byte that is not ASCII never decodes to an ASCII rune: every rune a multi-byte
  sequence yields lies at or above \<open>RuneSelf\<close> (no overlong encodings), and so does
  \<open>RuneError\<close>.\<close>

lemma byte_masks:
  "192 \<le> b \<Longrightarrow> b < 224 \<Longrightarrow> b mod 32 = b - 192"
  "224 \<le> b \<Longrightarrow> b < 240 \<Longrightarrow> b mod 16 = b - 224"
  "240 \<le> b \<Longrightarrow> b < 248 \<Longrightarrow> b mod 8 = b - 240"
  "128 \<le> b \<Longrightarrow> b < 192 \<Longrightarrow> b mod 64 = b - 128"
  for b :: nat
  using mod_offset [of 6 32 b] mod_offset [of 14 16 b] mod_offset [of 30 8 b] mod_offset [of 2 64 b]
  by simp_all

lemma decode_non_ascii:
  assumes "\<not> of_char c < (0x80 :: nat)"
  shows "RuneSelf \<le> fst (DecodeRuneInString (c # s))"
proof -
  define b where "b = (of_char c :: nat)"
  have b: "128 \<le> b" "b < 256" using assms by (simp_all add: b_def)
  have v2: "194 \<le> b \<Longrightarrow> b < 224 \<Longrightarrow> 128 \<le> b mod 32 * 64 + y" for y
    using byte_masks(1) [of b] by simp
  have v3: "224 \<le> b \<Longrightarrow> b < 240 \<Longrightarrow> accept_lo b \<le> x \<Longrightarrow> x \<le> 191 \<Longrightarrow>
      128 \<le> b mod 16 * 4096 + x mod 64 * 64 + y" for x y
    using byte_masks(2) [of b] byte_masks(4) [of x] by (auto simp: accept_lo_def split: if_splits)
  have v4: "240 \<le> b \<Longrightarrow> b < 245 \<Longrightarrow> accept_lo b \<le> x \<Longrightarrow> x \<le> 191 \<Longrightarrow>
      128 \<le> b mod 8 * 262144 + x mod 64 * 4096 + y + z" for x y z
    using byte_masks(3) [of b] byte_masks(4) [of x] by (auto simp: accept_lo_def split: if_splits)
  have hi: "accept_hi b \<le> 191" by (simp add: accept_hi_def)
  show ?thesis
    unfolding DecodeRuneInString.simps(2) Let_def b_def [symmetric]
    using b hi
    by (auto simp: seq_size_def RuneSelf_def RuneError_def not_less intro: v2 v3 v4)
qed

subsection \<open>Encoding and decoding\<close>

lemma of_char_of_small: "n < 256 \<Longrightarrow> of_char (char_of n :: char) = (n :: nat)"
  by (simp add: of_char_of)

lemma cont_mod [simp]: "(128 + x mod 64) mod 64 = x mod (64::nat)"
  using byte_masks(4) [of "128 + x mod 64"] by simp

lemma decode_enc2:
  assumes "0x80 \<le> r" "r \<le> 0x7FF"
  shows "DecodeRuneInString (char_of (0xC0 + r div 64) # char_of (0x80 + r mod 64) # s) = (r, 2)"
proof -
  have "128 div 64 \<le> r div 64" "r div 64 \<le> 2047 div 64"
    using div_le_mono [OF assms(1), of 64] div_le_mono [OF assms(2), of 64] by simp_all
  then have a: "194 \<le> 192 + r div 64" "192 + r div 64 < 224" by simp_all
  have m: "(192 + r div 64) mod 32 = r div 64" using byte_masks(1) [OF _ a(2)] a(1) by simp
  have b: "128 + r mod 64 < 192" by simp
  show ?thesis using a m
    by (simp add: DecodeRuneInString.simps(2) Let_def of_char_of_small seq_size_def accept_lo_def accept_hi_def)
qed

lemma digits3: "r = r div 4096 * 4096 + r div 64 mod 64 * 64 + r mod (64::nat)"
proof -
  have "r div 64 div 64 = r div 4096" by (simp add: div_mult2_eq [symmetric])
  then have "r div 64 = r div 4096 * 64 + r div 64 mod 64" by (metis div_mult_mod_eq)
  moreover have "r = r div 64 * 64 + r mod 64" by simp
  ultimately show ?thesis by linarith
qed

lemma digits4: "r = r div 262144 * 262144 + r div 4096 mod 64 * 4096 + r div 64 mod 64 * 64 + r mod (64::nat)"
proof -
  have "r div 4096 div 64 = r div 262144" by (simp add: div_mult2_eq [symmetric])
  then have "r div 4096 = r div 262144 * 64 + r div 4096 mod 64" by (metis div_mult_mod_eq)
  with digits3 [of r] show ?thesis by linarith
qed

lemma decode_enc3:
  assumes "0x800 \<le> r" "r \<le> 0xFFFF" "\<not> (0xD800 \<le> r \<and> r \<le> 0xDFFF)"
  shows "DecodeRuneInString (char_of (0xE0 + r div 4096) # char_of (0x80 + r div 64 mod 64) #
           char_of (0x80 + r mod 64) # s) = (r, 3)"
proof -
  define a b c where "a = r div 4096" and "b = r div 64 mod 64" and "c = r mod (64::nat)"
  have r: "r = a * 4096 + b * 64 + c" unfolding a_def b_def c_def by (rule digits3)
  have bc: "b < 64" "c < 64" by (simp_all add: b_def c_def)
  have "a \<le> 15" using r assms(2) by linarith
  then have s0: "224 \<le> 224 + a" "224 + a < 240" "(224 + a) mod 16 = a"
    using byte_masks(2) [of "224 + a"] by simp_all
  have lo: "a = 0 \<Longrightarrow> 32 \<le> b" using r bc assms(1) by linarith
  have hi: "a = 13 \<Longrightarrow> b \<le> 31" using r bc assms(3) by linarith
  have "DecodeRuneInString (char_of (224 + a) # char_of (128 + b) # char_of (128 + c) # s) =
        (a * 4096 + b * 64 + c, 3)"
    using s0 lo hi bc byte_masks(4) [of "128 + b"] byte_masks(4) [of "128 + c"]
    by (auto simp: DecodeRuneInString.simps(2) Let_def of_char_of_small seq_size_def accept_lo_def accept_hi_def
        cont_byte_def)
  then show ?thesis unfolding a_def [symmetric] c_def [symmetric] b_def [symmetric] using r by simp
qed

lemma decode_enc4:
  assumes "0x10000 \<le> r" "r \<le> 0x10FFFF"
  shows "DecodeRuneInString (char_of (0xF0 + r div 262144) # char_of (0x80 + r div 4096 mod 64) #
           char_of (0x80 + r div 64 mod 64) # char_of (0x80 + r mod 64) # s) = (r, 4)"
proof -
  define a b c d where "a = r div 262144" and "b = r div 4096 mod 64" and "c = r div 64 mod 64"
    and "d = r mod (64::nat)"
  have r: "r = a * 262144 + b * 4096 + c * 64 + d" unfolding a_def b_def c_def d_def by (rule digits4)
  have bcd: "b < 64" "c < 64" "d < 64" by (simp_all add: b_def c_def d_def)
  have "a \<le> 4" using r assms(2) by linarith
  then have s0: "240 \<le> 240 + a" "240 + a < 245" "(240 + a) mod 8 = a"
    using byte_masks(3) [of "240 + a"] by simp_all
  have lo: "a = 0 \<Longrightarrow> 16 \<le> b" using r bcd assms(1) by linarith
  have hi: "a = 4 \<Longrightarrow> b \<le> 15" using r bcd assms(2) by linarith
  have "DecodeRuneInString (char_of (240 + a) # char_of (128 + b) # char_of (128 + c) # char_of (128 + d) # s) =
        (a * 262144 + b * 4096 + c * 64 + d, 4)"
    using s0 lo hi bcd byte_masks(4) [of "128 + b"] byte_masks(4) [of "128 + c"] byte_masks(4) [of "128 + d"]
    by (auto simp: DecodeRuneInString.simps(2) Let_def of_char_of_small seq_size_def accept_lo_def accept_hi_def
        cont_byte_def)
  then show ?thesis unfolding a_def [symmetric] b_def [symmetric] c_def [symmetric] d_def [symmetric] using r by simp
qed

text \<open>Decoding inverts encoding: the decoder reads back every rune the encoder writes,
  with the width it wrote, and \<open>RuneError\<close> for the runes the encoder replaced.\<close>

lemma decode_EncodeRune:
  "DecodeRuneInString (EncodeRune r @ s) =
     (if r \<le> 0x10FFFF \<and> \<not> (0xD800 \<le> r \<and> r \<le> 0xDFFF) then r else RuneError, length (EncodeRune r))"
proof -
  let ?r' = "if 0x10FFFF < r \<or> (0xD800 \<le> r \<and> r \<le> 0xDFFF) then RuneError else r"
  consider "r \<le> 0x7F" | "0x7F < r" "r \<le> 0x7FF" | "0x7FF < r" "?r' \<le> 0xFFFF" | "0x7FF < r" "\<not> ?r' \<le> 0xFFFF"
    by linarith
  then show ?thesis
  proof cases
    case 1
    then show ?thesis by (simp add: EncodeRune_def of_char_of_small)
  next
    case 2
    then show ?thesis using decode_enc2 [of r s] by (simp add: EncodeRune_def)
  next
    case 3
    have "0x800 \<le> ?r'" "\<not> (0xD800 \<le> ?r' \<and> ?r' \<le> 0xDFFF)" using 3 by (auto simp: RuneError_def)
    with 3 show ?thesis using decode_enc3 [of ?r' s] by (auto simp: EncodeRune_def Let_def RuneError_def)
  next
    case 4
    then have "0x10000 \<le> r" "r \<le> 0x10FFFF" by (auto simp: RuneError_def split: if_splits)
    with 4 show ?thesis using decode_enc4 [of r s] by (auto simp: EncodeRune_def Let_def RuneError_def)
  qed
qed

lemma EncodeRune_non_ascii:
  assumes "0x80 \<le> r"
  shows "EncodeRune r \<noteq> [] \<and> (\<forall>c \<in> set (EncodeRune r). 128 \<le> (of_char c :: nat))"
proof -
  let ?r' = "if 0x10FFFF < r \<or> (0xD800 \<le> r \<and> r \<le> 0xDFFF) then RuneError else r"
  have m: "128 + x mod 64 < 256" for x :: nat by simp
  consider "r \<le> 0x7FF" | "0x7FF < r" "?r' \<le> 0xFFFF" | "0x7FF < r" "\<not> ?r' \<le> 0xFFFF" by linarith
  then show ?thesis
  proof cases
    case 1
    then have "r div 64 \<le> 2047 div 64" by (rule div_le_mono)
    with 1 assms show ?thesis by (simp add: EncodeRune_def of_char_of_small)
  next
    case 2
    then have "?r' div 4096 \<le> 65535 div 4096" by (intro div_le_mono) simp
    with 2 show ?thesis by (simp add: EncodeRune_def Let_def of_char_of_small del: div_le_mono)
  next
    case 3
    then have r: "r \<le> 0x10FFFF" "?r' = r" by (auto simp: RuneError_def split: if_splits)
    then have "r div 262144 \<le> 1114111 div 262144" by (intro div_le_mono) simp
    with 3 r show ?thesis by (simp add: EncodeRune_def Let_def of_char_of_small)
  qed
qed

end
