(* ===== verification/Sanitize.thy ===== *)
theory Sanitize
  imports Utf8
begin

text \<open>
  The name policy of \<open>src/rename.go\<close>: the three compiled patterns (lines 13--15), the
  test that skips a name (line 64) and \<open>sanitizeName\<close> (lines 130--134). Go's
  \<open>regexp\<close> steps through its input one rune at a time (\<open>DecodeRuneInString\<close>), so
  \<open>allowedChars.ReplaceAllString\<close> replaces each disallowed \<^emph>\<open>rune\<close> (a whole
  multi-byte character, or a single ill-formed byte) by \<open>__\<close>. \<open>plusChar\<close> is the
  single ASCII byte \<open>+\<close>, which no multi-byte sequence contains, so its replacement is
  byte-wise. \<open>validNamePattern\<close> has an ASCII class, which a non-ASCII rune never
  belongs to, so its test is byte-wise too.
\<close>

text \<open>The class \<open>[0-9a-zA-Z._\-]\<close> of \<open>validNamePattern\<close>, as the rune ranges
  \<open>regexp/syntax\<close> compiles it to: \<open>0-9\<close> is 48--57, \<open>a-z\<close> 97--122, \<open>A-Z\<close>
  65--90, \<open>.\<close> 46, \<open>_\<close> 95 and \<open>-\<close> 45.\<close>

definition name_rune :: "nat \<Rightarrow> bool" where
  "name_rune r \<longleftrightarrow>
     (48 \<le> r \<and> r \<le> 57) \<or> (97 \<le> r \<and> r \<le> 122) \<or> (65 \<le> r \<and> r \<le> 90) \<or>
     r = 46 \<or> r = 95 \<or> r = 45"

text \<open>The class \<open>[0-9a-zA-Z._+\-]\<close> whose complement is \<open>allowedChars\<close>: the same
  ranges and \<open>+\<close> (43).\<close>

definition allowed_rune :: "nat \<Rightarrow> bool" where
  "allowed_rune r \<longleftrightarrow> name_rune r \<or> r = 43"

definition name_char :: "char \<Rightarrow> bool" where
  "name_char c \<longleftrightarrow> name_rune (of_char c)"

definition allowed_char :: "char \<Rightarrow> bool" where
  "allowed_char c \<longleftrightarrow> allowed_rune (of_char c)"

text \<open>\<open>validNamePattern.MatchString\<close>: \<open>^[0-9a-zA-Z._\-]+$\<close>.\<close>

definition valid_name_pattern :: "string \<Rightarrow> bool" where
  "valid_name_pattern s \<longleftrightarrow> s \<noteq> [] \<and> list_all name_char s"

text \<open>Line 64: a name is skipped when it matches \<open>validNamePattern\<close> and holds no \<open>+\<close>.\<close>

definition already_valid :: "string \<Rightarrow> bool" where
  "already_valid oldName \<longleftrightarrow> valid_name_pattern oldName \<and> CHR ''+'' \<notin> set oldName"

text \<open>\<open>plusChar.ReplaceAllString(name, "_PLUS_")\<close>.\<close>

fun replace_plus :: "string \<Rightarrow> string" where
  "replace_plus [] = []"
| "replace_plus (c # s) =
     (if c = CHR ''+'' then ''_PLUS_'' @ replace_plus s else c # replace_plus s)"

text \<open>\<open>allowedChars.ReplaceAllString(name, "__")\<close>: the search advances one rune at a time;
  a rune outside the class is a match and is replaced, a rune inside it is copied.\<close>

function replace_disallowed :: "string \<Rightarrow> string" where
  "replace_disallowed [] = []"
| "replace_disallowed (c # s) =
     (let w = rune_width (c # s) in
      (if allowed_rune (fst (DecodeRuneInString (c # s))) then take w (c # s) else ''__'')
        @ replace_disallowed (drop w (c # s)))"
  by pat_completeness auto
termination
  by (relation "measure length") (simp_all add: drop_shorter)

declare replace_disallowed.simps(2) [simp del]

definition sanitizeName :: "string \<Rightarrow> string" where
  "sanitizeName name = replace_disallowed (replace_plus name)"

subsection \<open>The character classes\<close>

lemma allowed_rune_ascii: "allowed_rune r \<Longrightarrow> r < RuneSelf"
  by (auto simp: allowed_rune_def name_rune_def RuneSelf_def)

lemma allowed_char_ascii: "allowed_char c \<Longrightarrow> of_char c < (128 :: nat)"
  using allowed_rune_ascii by (simp add: allowed_char_def RuneSelf_def)

lemma allowed_char_iff [name_simps]: "allowed_char c \<longleftrightarrow> name_char c \<or> c = CHR ''+''"
proof -
  have "c = CHR ''+'' \<longleftrightarrow> of_char c = (of_char CHR ''+'' :: nat)"
    by (simp only: of_char_eq_iff)
  then have "c = CHR ''+'' \<longleftrightarrow> of_char c = (43 :: nat)"
    by simp
  then show ?thesis by (auto simp: allowed_char_def name_char_def allowed_rune_def)
qed

lemma plus_not_name_char [simp, name_simps]: "\<not> name_char CHR ''+''"
  by (simp add: name_char_def name_rune_def)

lemma underscore_name_char [simp, name_simps]: "name_char CHR ''_''"
  by (simp add: name_char_def name_rune_def)

lemma allowed_rune_of_char [name_simps]:
  "allowed_rune (fst (DecodeRuneInString (c # s))) \<longleftrightarrow> allowed_char c"
proof (cases "of_char c < (128 :: nat)")
  case True
  then show ?thesis by (simp add: allowed_char_def)
next
  case False
  then have "RuneSelf \<le> fst (DecodeRuneInString (c # s))"
    by (rule decode_non_ascii)
  with False show ?thesis
    by (auto dest: allowed_rune_ascii allowed_char_ascii)
qed

lemma replace_disallowed_allowed [simp]:
  "allowed_char c \<Longrightarrow> replace_disallowed (c # s) = c # replace_disallowed s"
  using allowed_char_ascii [of c] by (simp add: allowed_char_def replace_disallowed.simps(2))

lemma replace_disallowed_not_allowed:
  "\<not> allowed_char c \<Longrightarrow>
     replace_disallowed (c # s) = ''__'' @ replace_disallowed (drop (rune_width (c # s)) (c # s))"
  by (simp add: allowed_rune_of_char Let_def replace_disallowed.simps(2))

subsection \<open>What the two replacements produce\<close>

lemma replace_plus_no_plus [simp]: "CHR ''+'' \<notin> set (replace_plus s)"
  by (induction s) auto

lemma replace_plus_id: "CHR ''+'' \<notin> set s \<Longrightarrow> replace_plus s = s"
  by (induction s) auto

lemma replace_plus_Nil_iff [simp]: "replace_plus s = [] \<longleftrightarrow> s = []"
  by (cases s) auto

lemma rune_width_allowed: "allowed_char c \<Longrightarrow> rune_width (c # s) = 1"
  using allowed_char_ascii [of c] by simp

lemma set_replace_disallowed:
  "set (replace_disallowed s) \<subseteq> (set s \<inter> Collect allowed_char) \<union> {CHR ''_''}"
proof (induction s rule: replace_disallowed.induct)
  case 1
  then show ?case by simp
next
  case (2 c s)
  show ?case
  proof (cases "allowed_char c")
    case True
    then have "set (replace_disallowed s) \<subseteq> (set s \<inter> Collect allowed_char) \<union> {CHR ''_''}"
      using "2.IH" [of 1] by (simp add: rune_width_allowed)
    with True show ?thesis by auto
  next
    case False
    let ?t = "drop (rune_width (c # s)) (c # s)"
    have eq: "set (replace_disallowed (c # s)) = insert CHR ''_'' (set (replace_disallowed ?t))"
      using False by (simp add: replace_disallowed_not_allowed)
    have "set ?t \<subseteq> set (c # s)"
      by (rule set_drop_subset)
    moreover have "set (replace_disallowed ?t) \<subseteq> (set ?t \<inter> Collect allowed_char) \<union> {CHR ''_''}"
      by (rule "2.IH" [OF refl])
    ultimately show ?thesis
      unfolding eq by blast
  qed
qed

lemma replace_disallowed_Nil_iff [simp]: "replace_disallowed s = [] \<longleftrightarrow> s = []"
proof (cases s)
  case (Cons c t)
  then show ?thesis by (cases "allowed_char c") (simp_all add: replace_disallowed_not_allowed)
qed simp

lemma replace_disallowed_id: "list_all allowed_char s \<Longrightarrow> replace_disallowed s = s"
  by (induction s) auto

text \<open>Every character \<open>sanitizeName\<close> emits is in the class of \<open>validNamePattern\<close>.\<close>

lemma sanitize_chars: "list_all name_char (sanitizeName s)"
proof -
  have "set (sanitizeName s) \<subseteq> (set (replace_plus s) \<inter> Collect allowed_char) \<union> {CHR ''_''}"
    unfolding sanitizeName_def by (rule set_replace_disallowed)
  then show ?thesis
    using replace_plus_no_plus [of s] unfolding list_all_iff allowed_char_iff by auto
qed

lemma sanitize_Nil [simp]: "sanitizeName [] = []"
  by (simp add: sanitizeName_def)

lemma sanitize_Nil_iff [simp]: "sanitizeName s = [] \<longleftrightarrow> s = []"
  by (simp add: sanitizeName_def)

lemma valid_name_no_plus: "valid_name_pattern s \<Longrightarrow> CHR ''+'' \<notin> set s"
  by (auto simp: valid_name_pattern_def list_all_iff)

lemma already_valid_iff: "already_valid s \<longleftrightarrow> valid_name_pattern s"
  by (auto simp: already_valid_def dest: valid_name_no_plus)

lemma sanitize_id_valid: "valid_name_pattern s \<Longrightarrow> sanitizeName s = s"
proof -
  assume v: "valid_name_pattern s"
  then have "replace_plus s = s" by (simp add: replace_plus_id valid_name_no_plus)
  moreover from v have "list_all allowed_char s"
    by (auto simp: valid_name_pattern_def list_all_iff allowed_char_iff)
  ultimately show ?thesis by (simp add: sanitizeName_def replace_disallowed_id)
qed

text \<open>A name the skip test rejects is changed by \<open>sanitizeName\<close>, and the result
  holds an underscore.\<close>

lemma replace_disallowed_underscore:
  "\<not> list_all allowed_char s \<Longrightarrow> CHR ''_'' \<in> set (replace_disallowed s)"
proof (induction s rule: replace_disallowed.induct)
  case (2 c s)
  show ?case
  proof (cases "allowed_char c")
    case True
    with "2.prems" have "\<not> list_all allowed_char (drop 1 (c # s))" by simp
    with "2.IH" [of 1] True have "CHR ''_'' \<in> set (replace_disallowed s)"
      by (simp add: rune_width_allowed)
    with True show ?thesis by simp
  next
    case False
    then show ?thesis by (simp add: replace_disallowed_not_allowed)
  qed
qed simp

lemma replace_plus_underscore: "CHR ''+'' \<in> set s \<Longrightarrow> CHR ''_'' \<in> set (replace_plus s)"
  by (induction s) auto

lemma replace_plus_keeps: "c \<in> set s \<Longrightarrow> c \<noteq> CHR ''+'' \<Longrightarrow> c \<in> set (replace_plus s)"
  by (induction s) auto

lemma sanitize_underscore: "\<not> list_all name_char s \<Longrightarrow> CHR ''_'' \<in> set (sanitizeName s)"
proof (cases "list_all allowed_char (replace_plus s)")
  case True
  assume "\<not> list_all name_char s"
  then obtain c where c: "c \<in> set s" "\<not> name_char c" by (auto simp: list_all_iff)
  have "c = CHR ''+''"
  proof (rule ccontr)
    assume "c \<noteq> CHR ''+''"
    with c(1) have "c \<in> set (replace_plus s)" by (rule replace_plus_keeps)
    with True c(2) \<open>c \<noteq> CHR ''+''\<close> show False by (auto simp: list_all_iff allowed_char_iff)
  qed
  with c(1) have "CHR ''_'' \<in> set (replace_plus s)" by (simp add: replace_plus_underscore)
  with True show ?thesis by (simp add: sanitizeName_def replace_disallowed_id)
next
  case False
  then show ?thesis unfolding sanitizeName_def by (rule replace_disallowed_underscore)
qed

lemma sanitize_changes: "s \<noteq> [] \<Longrightarrow> \<not> already_valid s \<Longrightarrow> sanitizeName s \<noteq> s"
  using sanitize_chars [of s] by (auto simp: already_valid_iff valid_name_pattern_def)

text \<open>The definitions a closed instance of \<open>sanitizeName\<close> evaluates with.\<close>

lemma length_replace_plus: "length (replace_plus s) = length s + 5 * count_list s CHR ''+''"
  by (induction s) auto

lemma filter_replace_plus:
  "filter (\<lambda>c. \<not> allowed_char c) (replace_plus s) = filter (\<lambda>c. \<not> allowed_char c) s"
  by (induction s) (simp_all add: name_simps name_char_def name_rune_def)

lemma count_plus_disallowed_le:
  "count_list s CHR ''+'' + length (filter (\<lambda>c. \<not> allowed_char c) s) \<le> length s"
  by (induction s) (auto simp: name_simps)

lemma replace_disallowed_length:
  "length (replace_disallowed t) \<le> length t + length (filter (\<lambda>c. \<not> allowed_char c) t)"
proof (induction t rule: replace_disallowed.induct)
  case (2 c s)
  let ?d = "drop (rune_width (c # s)) (c # s)"
  have IH: "length (replace_disallowed ?d) \<le> length ?d + length (filter (\<lambda>c. \<not> allowed_char c) ?d)"
    using "2.IH" by simp
  show ?case
  proof (cases "allowed_char c")
    case True
    then show ?thesis using IH by (simp add: rune_width_allowed)
  next
    case False
    obtain k where k: "rune_width (c # s) = Suc k" using rune_width_pos [of "c # s"] by (cases "rune_width (c # s)") auto
    have "k \<le> length s" using rune_width_le_length [of "c # s"] k by simp
    moreover have "length (filter (\<lambda>c. \<not> allowed_char c) (drop k s)) \<le> length (filter (\<lambda>c. \<not> allowed_char c) s)"
      by (rule length_filter_drop)
    ultimately show ?thesis using IH False k by (simp add: replace_disallowed_not_allowed)
  qed
qed simp

lemma sanitize_plus_run: "sanitizeName (replicate n CHR ''+'') = concat (replicate n ''_PLUS_'')"
proof (induction n)
  case (Suc n)
  have "list_all allowed_char ''_PLUS_''" by (simp add: name_simps name_char_def name_rune_def)
  then show ?case using Suc by (simp add: sanitizeName_def)
qed (simp add: sanitizeName_def)

lemma replace_plus_append: "replace_plus (xs @ ys) = replace_plus xs @ replace_plus ys"
  by (induction xs) auto

lemma sanitize_rune: "0x80 \<le> r \<Longrightarrow> sanitizeName (EncodeRune r @ s) = ''__'' @ sanitizeName s"
proof -
  assume r: "0x80 \<le> r"
  obtain c cs where e: "EncodeRune r = c # cs" using EncodeRune_non_ascii [OF r] by (cases "EncodeRune r") auto
  have na: "\<forall>x \<in> set (EncodeRune r). \<not> allowed_char x \<and> x \<noteq> CHR ''+''"
    using EncodeRune_non_ascii [OF r] allowed_char_ascii allowed_char_iff by fastforce
  then have "CHR ''+'' \<notin> set (EncodeRune r)" by blast
  then have "replace_plus (EncodeRune r @ s) = EncodeRune r @ replace_plus s"
    by (simp add: replace_plus_append replace_plus_id)
  moreover have "rune_width (EncodeRune r @ t) = length (EncodeRune r)" for t
    by (simp add: decode_EncodeRune)
  moreover have "\<not> allowed_char c" using na e by simp
  ultimately show "sanitizeName (EncodeRune r @ s) = ''__'' @ sanitizeName s"
    using replace_disallowed_not_allowed [of c "cs @ replace_plus s"]
    by (simp add: sanitizeName_def e)
qed

lemma sanitize_bad_byte: "128 \<le> (of_char c :: nat) \<and> seq_size (of_char c) = 0 \<Longrightarrow> sanitizeName (c # s) = ''__'' @ sanitizeName s"
proof -
  assume a: "128 \<le> (of_char c :: nat) \<and> seq_size (of_char c) = 0"
  then have "\<not> allowed_char c" "c \<noteq> CHR ''+''" using allowed_char_ascii [of c] by auto
  moreover have "rune_width (c # t) = 1" for t
    using a by (simp add: DecodeRuneInString.simps(2) Let_def)
  ultimately show "sanitizeName (c # s) = ''__'' @ sanitizeName s"
    by (simp add: sanitizeName_def replace_disallowed_not_allowed)
qed

lemmas sanitize_eval = sanitizeName_def replace_disallowed.simps allowed_rune_def name_rune_def allowed_char_def
  name_char_def decode_rune_simps


subsection \<open>Properties of \<open>sanitizeName\<close>\<close>

text \<open>C26: whatever non-empty name \<open>sanitizeName\<close> is given, its result passes the skip test
  of line 64: it matches \<open>validNamePattern\<close> and holds no \<open>+\<close>. So every candidate the
  renamer computes is a portable name.\<close>

theorem sanitize_result_valid: "name \<noteq> [] \<Longrightarrow> already_valid (sanitizeName name)"
  by (simp add: already_valid_iff valid_name_pattern_def sanitize_chars)

theorem sanitize_result_valid_witness:
  "''a+b c.d'' \<noteq> [] \<and> already_valid (sanitizeName ''a+b c.d'')"
  using sanitize_result_valid [of "''a+b c.d''"] by simp

text \<open>C27: \<open>sanitizeName\<close> leaves a name unchanged exactly when the name is empty or
  already passes the skip test of line 64; so the defensive re-check
  \<open>oldName == sanitized\<close> of line 69 only ever fires for the empty name, and a name that
  the test of line 64 rejects is always changed.\<close>

theorem sanitize_unchanged_iff:
  "sanitizeName name = name \<longleftrightarrow> name = [] \<or> already_valid name"
proof
  assume "sanitizeName name = name"
  then show "name = [] \<or> already_valid name"
    using sanitize_chars [of name] by (auto simp: already_valid_iff valid_name_pattern_def)
next
  assume "name = [] \<or> already_valid name"
  then show "sanitizeName name = name" by (auto simp: already_valid_iff sanitize_id_valid)
qed

text \<open>C28: sanitization is idempotent: sanitizing a sanitized name changes nothing.\<close>

theorem sanitize_idempotent: "sanitizeName (sanitizeName name) = sanitizeName name"
  by (cases "name = []") (simp_all add: sanitize_id_valid valid_name_pattern_def sanitize_chars)

text \<open>C29: substitution is per rune, not per byte: every non-ASCII rune, whatever its
  width in UTF-8 (two to four bytes; a rune the encoder replaces by \<open>RuneError\<close> takes
  three), becomes the single \<open>__\<close>, and so does each byte that cannot start a UTF-8
  sequence. So a name of \<open>n\<close> non-ASCII letters sanitizes to \<open>2 * n\<close> bytes,
  whatever number of bytes it has.\<close>

theorem sanitize_per_rune:
  "(\<forall>r s. 0x80 \<le> r \<longrightarrow> sanitizeName (EncodeRune r @ s) = ''__'' @ sanitizeName s) \<and>
   (\<forall>c s. 128 \<le> (of_char c :: nat) \<and> seq_size (of_char c) = 0 \<longrightarrow>
      sanitizeName (c # s) = ''__'' @ sanitizeName s)"
  using sanitize_rune sanitize_bad_byte by blast

theorem sanitize_per_rune_witness:
  "EncodeRune 0xE9 = [CHR 0xC3, CHR 0xA9] \<and> sanitizeName ([CHR 0xC3, CHR 0xA9] @ ''x'') = ''__x'' \<and>
   sanitizeName (CHR 0xFF # ''x'') = ''__x''"
proof -
  have e: "EncodeRune 0xE9 = [CHR 0xC3, CHR 0xA9]" by code_simp
  have x: "sanitizeName ''x'' = ''x''" by (simp add: sanitize_eval)
  have a: "sanitizeName (EncodeRune 0xE9 @ ''x'') = ''__'' @ sanitizeName ''x''"
    using sanitize_per_rune [THEN conjunct1] by simp
  have b: "sanitizeName (CHR 0xFF # ''x'') = ''__'' @ sanitizeName ''x''"
    using sanitize_per_rune [THEN conjunct2] by (simp add: seq_size_def)
  from e x a b show ?thesis by simp
qed

text \<open>C13: a sanitized name is at most six times as long as the original, and the bound is
  reached: every \<open>+\<close> becomes the six bytes \<open>_PLUS_\<close>, every other disallowed rune
  of \<open>w \<ge> 1\<close> bytes the two bytes \<open>__\<close>. So a name of 43 bytes can exceed the
  255-byte limit of most Unix file systems after sanitizing.\<close>

theorem sanitize_length_bound:
  "length (sanitizeName name) \<le> 6 * length name \<and> length (sanitizeName (replicate n CHR ''+'')) = 6 * n"
proof
  have "length (sanitizeName name) \<le> length (replace_plus name) + length (filter (\<lambda>c. \<not> allowed_char c) name)"
    using replace_disallowed_length [of "replace_plus name"] by (simp add: sanitizeName_def filter_replace_plus)
  then show "length (sanitizeName name) \<le> 6 * length name"
    using count_plus_disallowed_le [of name] by (simp add: length_replace_plus)
  show "length (sanitizeName (replicate n CHR ''+'')) = 6 * n"
    unfolding sanitize_plus_run by (induction n) simp_all
qed

end
