(* ===== verification/FileTree.thy ===== *)
theory FileTree
  imports Prelude
begin

text \<open>
  The file system both tools act on, and the operations of Go's \<open>os\<close> package they call.
  A file system is the tree below \<open>/\<close>: a directory holds an association list from
  names to nodes (its order is the order of creation; \<open>os.ReadDir\<close> sorts by name), a
  file holds its data. Each node has one permission bit, \<open>readable\<close>: for a directory,
  whether its entries can be listed; for a file, whether \<open>os.Open\<close> succeeds. A file's
  data is either plain bytes or a zip container as \<open>archive/zip\<close> reads it: a list of
  entries, each with a name, the data stored under it (the content of the file it was
  copied from) and whether \<open>File.Open\<close> succeeds on it.
  Symbolic links, hard links, ownership and write permissions are not modelled.

  The operations return \<open>os_error + fs\<close>: \<open>Inl\<close> is the error a Go call returns.
  \<open>os_rename\<close> follows \<open>os.Rename\<close> on Unix: Go first refuses an existing directory
  as the target (\<open>EEXIST\<close>), then \<open>rename(2)\<close> replaces an existing file, refuses to
  put a directory over a file (\<open>ENOTDIR\<close>) or into itself (\<open>EINVAL\<close>), and treats a
  rename onto the same path as a no-op.
\<close>

datatype fdata = Plain string | Zip "zip_entry list"
  and zip_entry = Entry (ze_name: string) (ze_data: fdata) (ze_opens: bool)

datatype node = File bool fdata | Dir bool "(name \<times> node) list"

type_synonym fs = node

datatype os_error = ENOENT | EEXIST | ENOTDIR | EISDIR | EINVAL | ENOTEMPTY | EACCES

fun is_dir :: "node \<Rightarrow> bool" where
  "is_dir (Dir _ _) = True"
| "is_dir (File _ _) = False"

text \<open>Path resolution, as the kernel walks a path from \<open>/\<close>.\<close>

fun lookup :: "node \<Rightarrow> path \<Rightarrow> node option" where
  "lookup n [] = Some n"
| "lookup (File _ _) (x # xs) = None"
| "lookup (Dir _ cs) (x # xs) = (case map_of cs x of None \<Rightarrow> None | Some c \<Rightarrow> lookup c xs)"

text \<open>Setting the entry \<open>x\<close> of a directory listing (\<open>None\<close> removes it); a new entry
  goes last.\<close>

definition set_child :: "(name \<times> node) list \<Rightarrow> name \<Rightarrow> node option \<Rightarrow> (name \<times> node) list" where
  "set_child cs x opt =
     (case opt of
        None \<Rightarrow> filter (\<lambda>(k, v). k \<noteq> x) cs
      | Some n \<Rightarrow>
          (if x \<in> fst ` set cs then map (\<lambda>(k, v). if k = x then (k, n) else (k, v)) cs
           else cs @ [(x, n)]))"

text \<open>Setting the node at a path whose parent is a directory; elsewhere nothing changes.\<close>

fun update_at :: "path \<Rightarrow> node option \<Rightarrow> node \<Rightarrow> node" where
  "update_at [] opt n = n"
| "update_at [x] opt (Dir r cs) = Dir r (set_child cs x opt)"
| "update_at (x # y # ys) opt (Dir r cs) =
     Dir r (map (\<lambda>(k, v). if k = x then (k, update_at (y # ys) opt v) else (k, v)) cs)"
| "update_at (x # xs) opt (File r d) = File r d"

text \<open>\<open>os.Stat\<close>: the node at a path.\<close>

definition os_stat :: "fs \<Rightarrow> path \<Rightarrow> os_error + node" where
  "os_stat fs p = (case lookup fs p of None \<Rightarrow> Inl ENOENT | Some n \<Rightarrow> Inr n)"

text \<open>\<open>os.ReadDir\<close>: the entries of a directory, sorted by name.\<close>

definition os_readdir :: "fs \<Rightarrow> path \<Rightarrow> os_error + (name \<times> node) list" where
  "os_readdir fs p =
     (case lookup fs p of
        None \<Rightarrow> Inl ENOENT
      | Some (File _ _) \<Rightarrow> Inl ENOTDIR
      | Some (Dir r cs) \<Rightarrow> (if r then Inr (sort_key fst cs) else Inl EACCES))"

text \<open>\<open>os.Rename\<close> on Unix (\<open>os/file_unix.go\<close>, then \<open>rename(2)\<close>).\<close>

definition os_rename :: "fs \<Rightarrow> path \<Rightarrow> path \<Rightarrow> os_error + fs" where
  "os_rename fs old new =
     (case lookup fs old of
        None \<Rightarrow> Inl ENOENT
      | Some n \<Rightarrow>
          (case lookup fs new of
             Some (Dir _ _) \<Rightarrow> Inl EEXIST
           | Some (File _ _) \<Rightarrow>
               (if is_dir n then Inl ENOTDIR
                else if old = new then Inr fs
                else Inr (update_at new (Some n) (update_at old None fs)))
           | None \<Rightarrow>
               (if old = [] \<or> new = [] \<or> prefix old new then Inl EINVAL
                else (case lookup fs (butlast new) of
                        Some (Dir _ _) \<Rightarrow> Inr (update_at new (Some n) (update_at old None fs))
                      | Some (File _ _) \<Rightarrow> Inl ENOTDIR
                      | None \<Rightarrow> Inl ENOENT))))"

text \<open>\<open>os.Remove\<close>: a file, or an empty directory.\<close>

definition os_remove :: "fs \<Rightarrow> path \<Rightarrow> os_error + fs" where
  "os_remove fs p =
     (case lookup fs p of
        None \<Rightarrow> Inl ENOENT
      | Some (File _ _) \<Rightarrow> Inr (update_at p None fs)
      | Some (Dir _ cs) \<Rightarrow> (if cs = [] \<and> p \<noteq> [] then Inr (update_at p None fs) else Inl ENOTEMPTY))"

text \<open>\<open>os.Create\<close> followed by writing \<open>d\<close> and closing: the file is created or
  truncated; a directory in its place, or a missing parent, is an error.\<close>

definition os_write_file :: "fs \<Rightarrow> path \<Rightarrow> fdata \<Rightarrow> os_error + fs" where
  "os_write_file fs p d =
     (case lookup fs p of
        Some (Dir _ _) \<Rightarrow> Inl EISDIR
      | _ \<Rightarrow>
          (if p = [] then Inl EISDIR
           else (case lookup fs (butlast p) of
                   Some (Dir _ _) \<Rightarrow> Inr (update_at p (Some (File True d)) fs)
                 | Some (File _ _) \<Rightarrow> Inl ENOTDIR
                 | None \<Rightarrow> Inl ENOENT)))"

text \<open>\<open>os.MkdirAll\<close>: nothing to do for an existing directory, an error for an existing
  file, otherwise the parent first and then \<open>os.Mkdir\<close>.\<close>

function os_mkdirall :: "fs \<Rightarrow> path \<Rightarrow> os_error + fs" where
  "os_mkdirall fs p =
     (case lookup fs p of
        Some (Dir _ _) \<Rightarrow> Inr fs
      | Some (File _ _) \<Rightarrow> Inl ENOTDIR
      | None \<Rightarrow>
          (if p = [] then Inr fs
           else (case os_mkdirall fs (butlast p) of
                   Inl e \<Rightarrow> Inl e
                 | Inr fs' \<Rightarrow>
                     (case lookup fs' (butlast p) of
                        Some (Dir _ _) \<Rightarrow> Inr (update_at p (Some (Dir True [])) fs')
                      | _ \<Rightarrow> Inl ENOTDIR))))"
  by pat_completeness auto
termination
  by (relation "measure (\<lambda>(fs, p). length p)") auto

declare os_mkdirall.simps [simp del]

text \<open>A name the kernel accepts as a path component, and the well-formedness of a tree:
  in every directory the names are distinct and legal.\<close>

definition fs_name :: "name \<Rightarrow> bool" where
  "fs_name n \<longleftrightarrow> n \<noteq> [] \<and> n \<noteq> ''.'' \<and> n \<noteq> ''..'' \<and> CHR ''/'' \<notin> set n \<and> CHR 0x00 \<notin> set n"

fun wf_fs :: "node \<Rightarrow> bool" where
  "wf_fs (File _ _) = True"
| "wf_fs (Dir _ cs) = (distinct (map fst cs) \<and> list_all (\<lambda>(k, c). fs_name k \<and> wf_fs c) cs)"

text \<open>Every path that resolves in a tree: the tree is finite, so only finitely many paths
  name an entry.\<close>

function all_paths :: "node \<Rightarrow> path list" where
  "all_paths (File r d) = [[]]"
| "all_paths (Dir r cs) = [] # concat (map (\<lambda>(k, c). map ((#) k) (all_paths c)) cs)"
  by pat_completeness auto
termination
  by (relation "measure size") (auto simp: size_list_pair_elem)

subsection \<open>Lookup after an update\<close>

lemma map_of_map_at [simp, fs_simps]:
  "map_of (map (\<lambda>(k, v). if k = x then (k, f v) else (k, v)) cs) y =
     (if y = x then map_option f (map_of cs x) else map_of cs y)"
proof (induction cs)
  case (Cons kv cs)
  then show ?case by (cases kv) auto
qed simp

lemma map_of_set_child [simp, fs_simps]:
  "map_of (set_child cs x opt) y = (if y = x then opt else map_of cs y)"
proof (cases opt)
  case None
  then show ?thesis by (simp add: set_child_def)
next
  case (Some n)
  show ?thesis
  proof (cases "x \<in> fst ` set cs")
    case True
    then obtain v where "map_of cs x = Some v" by (metis map_of_eq_None_iff not_None_eq)
    with True Some map_of_map_at [of x "\<lambda>_. n" cs y] show ?thesis by (simp add: set_child_def)
  next
    case False
    then have "map_of cs x = None" by (simp add: map_of_eq_None_iff)
    with False Some show ?thesis by (simp add: set_child_def map_add_def split: option.splits)
  qed
qed

lemma lookup_Dir_Cons [simp, fs_simps]:
  "lookup (Dir r cs) (x # xs) = Option.bind (map_of cs x) (\<lambda>c. lookup c xs)"
  by (simp split: option.splits)

declare lookup.simps(3) [simp del]

lemma lookup_update_at_other:
  "\<not> prefix p q \<Longrightarrow> \<not> prefix q p \<Longrightarrow> lookup (update_at p opt fs) q = lookup fs q"
proof (induction p opt fs arbitrary: q rule: update_at.induct)
  case (2 x opt r cs)
  then obtain y ys where "q = y # ys" "y \<noteq> x" by (cases q) auto
  then show ?case by simp
next
  case (3 x y ys opt r cs)
  then obtain z zs where q: "q = z # zs" by (cases q) auto
  show ?case
  proof (cases "z = x")
    case True
    with "3.prems" q have np: "\<not> prefix (y # ys) zs" "\<not> prefix zs (y # ys)" by auto
    show ?thesis
    proof (cases "map_of cs x")
      case (Some c)
      then have "(x, c) \<in> set cs" by (rule map_of_SomeD)
      from "3.IH" [OF this refl refl np] Some q True show ?thesis by simp
    qed (simp add: q True)
  next
    case False
    with q show ?thesis by simp
  qed
qed simp_all

lemma lookup_update_at_below:
  "lookup fs (butlast p) = Some (Dir r cs) \<Longrightarrow> p \<noteq> [] \<Longrightarrow>
     lookup (update_at p opt fs) (p @ q) = Option.bind opt (\<lambda>n. lookup n q)"
proof (induction p opt fs arbitrary: r cs rule: update_at.induct)
  case (3 x y ys opt r' cs')
  then obtain c where c: "map_of cs' x = Some c" and d: "lookup c (butlast (y # ys)) = Some (Dir r cs)"
    by (auto split: Option.bind_splits)
  from c have "(x, c) \<in> set cs'" by (rule map_of_SomeD)
  from "3.IH" [OF this refl refl d] c show ?case by simp
qed (auto split: option.splits if_splits)

subsection \<open>Well-formedness\<close>

lemma fst_comp_map_at [simp]:
  "fst \<circ> (\<lambda>(k, v). if k = x then (k, f v) else (k, v)) = fst"
  by auto

lemma list_all_map_at:
  "list_all P cs \<Longrightarrow> (\<And>v. (x, v) \<in> set cs \<Longrightarrow> P (x, f v)) \<Longrightarrow>
     list_all P (map (\<lambda>(k, v). if k = x then (k, f v) else (k, v)) cs)"
  by (induction cs) auto

lemma wf_set_child:
  assumes "distinct (map fst cs)" "list_all (\<lambda>(k, c). fs_name k \<and> wf_fs c) cs"
    and "case opt of None \<Rightarrow> True | Some n \<Rightarrow> fs_name x \<and> wf_fs n"
  shows "distinct (map fst (set_child cs x opt)) \<and>
         list_all (\<lambda>(k, c). fs_name k \<and> wf_fs c) (set_child cs x opt)"
proof (cases opt)
  case None
  with assms show ?thesis by (auto simp: set_child_def list_all_iff)
next
  case (Some n)
  with assms list_all_map_at [of "\<lambda>(k, c). fs_name k \<and> wf_fs c" cs x "\<lambda>_. n"]
  show ?thesis by (auto simp: set_child_def list_all_iff)
qed

lemma wf_fs_update_at:
  "wf_fs fs \<Longrightarrow> (case opt of None \<Rightarrow> True | Some n \<Rightarrow> fs_name (last p) \<and> wf_fs n) \<Longrightarrow>
     wf_fs (update_at p opt fs)"
proof (induction p opt fs rule: update_at.induct)
  case (2 x opt r cs)
  then show ?case using wf_set_child [of cs x opt] by (simp split: option.splits)
next
  case (3 x y ys opt r cs)
  have "list_all (\<lambda>(k, c). fs_name k \<and> wf_fs c)
          (map (\<lambda>(k, v). if k = x then (k, update_at (y # ys) opt v) else (k, v)) cs)"
  proof (rule list_all_map_at)
    show "list_all (\<lambda>(k, c). fs_name k \<and> wf_fs c) cs" using "3.prems" by simp
  next
    fix v assume v: "(x, v) \<in> set cs"
    with "3.prems" have "fs_name x" "wf_fs v" by (auto simp: list_all_iff)
    moreover have "wf_fs (update_at (y # ys) opt v)"
      using "3.IH" [OF v refl refl] "3.prems" \<open>wf_fs v\<close> by (simp split: option.splits)
    ultimately show "(\<lambda>(k, c). fs_name k \<and> wf_fs c) (x, update_at (y # ys) opt v)" by simp
  qed
  with "3.prems" show ?case by simp
qed simp_all


lemma wf_fs_lookup: "wf_fs fs \<Longrightarrow> lookup fs p = Some n \<Longrightarrow> wf_fs n"
proof (induction p arbitrary: fs)
  case (Cons x xs)
  then obtain r cs c where "fs = Dir r cs" "map_of cs x = Some c" "lookup c xs = Some n"
    by (cases fs) (auto split: Option.bind_splits)
  moreover from this Cons.prems have "wf_fs c"
    by (auto simp: list_all_iff dest!: map_of_SomeD)
  ultimately show ?case using Cons.IH by blast
qed simp

lemma wf_fs_move:
  "wf_fs fs \<Longrightarrow> lookup fs old = Some n \<Longrightarrow> fs_name (last new) \<Longrightarrow>
     wf_fs (update_at new (Some n) (update_at old None fs))"
  using wf_fs_lookup [of fs old n] wf_fs_update_at [where fs = fs and opt = None and p = old]
    wf_fs_update_at [where fs = "update_at old None fs" and opt = "Some n" and p = new]
  by simp

lemma wf_fs_os_rename:
  "wf_fs fs \<Longrightarrow> fs_name (last new) \<Longrightarrow> os_rename fs old new = Inr fs' \<Longrightarrow> wf_fs fs'"
  by (auto simp: os_rename_def wf_fs_move split: option.splits node.splits if_splits)

lemma wf_fs_os_remove: "wf_fs fs \<Longrightarrow> os_remove fs p = Inr fs' \<Longrightarrow> wf_fs fs'"
  by (auto simp: os_remove_def wf_fs_update_at split: option.splits node.splits if_splits)

lemma wf_fs_os_write_file:
  "wf_fs fs \<Longrightarrow> fs_name (last p) \<Longrightarrow> os_write_file fs p d = Inr fs' \<Longrightarrow> wf_fs fs'"
  by (auto simp: os_write_file_def wf_fs_update_at split: option.splits node.splits if_splits)

lemma wf_fs_os_mkdirall:
  "wf_fs fs \<Longrightarrow> list_all fs_name p \<Longrightarrow> os_mkdirall fs p = Inr fs' \<Longrightarrow> wf_fs fs'"
proof (induction fs p arbitrary: fs' rule: os_mkdirall.induct)
  case (1 fs p)
  show ?case
  proof (cases "lookup fs p")
    case None
    with "1.prems" obtain fs1 r cs where m: "os_mkdirall fs (butlast p) = Inr fs1"
      and par: "lookup fs1 (butlast p) = Some (Dir r cs)" and p: "p \<noteq> []"
      and fs': "fs' = update_at p (Some (Dir True [])) fs1"
      by (subst (asm) os_mkdirall.simps) (auto split: sum.splits option.splits node.splits if_splits)
    have "list_all fs_name (butlast p)" using "1.prems"(2) by (simp add: list_all_iff in_set_butlastD)
    with "1.IH" [OF None p] "1.prems"(1) m have "wf_fs fs1" by blast
    moreover have "fs_name (last p)" using "1.prems"(2) p by (simp add: list_all_iff)
    ultimately show ?thesis using fs' by (simp add: wf_fs_update_at)
  next
    case (Some n)
    with "1.prems" show ?thesis
      by (subst (asm) os_mkdirall.simps) (auto split: node.splits)
  qed
qed

subsection \<open>Finitely many paths\<close>

lemma lookup_all_paths: "lookup n p = Some m \<Longrightarrow> p \<in> set (all_paths n)"
proof (induction n p rule: lookup.induct)
  case (3 r cs x xs)
  then obtain c where c: "map_of cs x = Some c" and l: "lookup c xs = Some m"
    by (cases "map_of cs x") auto
  from c have "(x, c) \<in> set cs" by (rule map_of_SomeD)
  with "3.IH" [OF c l] show ?case by force
next
  case (1 n)
  then show ?case by (cases n) auto
qed simp

lemma finite_existing: "finite {p. lookup n p \<noteq> None}"
proof (rule finite_subset)
  show "{p. lookup n p \<noteq> None} \<subseteq> set (all_paths n)" using lookup_all_paths by blast
qed simp

subsection \<open>Frame: what an operation leaves unchanged\<close>

lemma lookup_snoc:
  "lookup fs (p @ [x]) = (case lookup fs p of Some (Dir r cs) \<Rightarrow> map_of cs x | _ \<Rightarrow> None)"
proof (induction fs p rule: lookup.induct)
  case (1 n)
  then show ?case by (cases n) (auto split: option.splits)
next
  case (3 r cs y ys)
  then show ?case by (auto split: option.splits Option.bind_splits)
qed simp

lemma lookup_update_at_parent:
  "lookup fs (butlast p) = Some (Dir r cs) \<Longrightarrow> p \<noteq> [] \<Longrightarrow>
     lookup (update_at p opt fs) (butlast p) = Some (Dir r (set_child cs (last p) opt))"
proof (induction p opt fs arbitrary: r cs rule: update_at.induct)
  case (3 x y ys opt r' cs')
  then obtain c where c: "map_of cs' x = Some c" and d: "lookup c (butlast (y # ys)) = Some (Dir r cs)"
    by (auto split: Option.bind_splits)
  from c have "(x, c) \<in> set cs'" by (rule map_of_SomeD)
  from "3.IH" [OF this refl refl d] c show ?case by simp
qed (auto split: option.splits if_splits)

lemma lookup_update_at_self:
  "lookup fs (butlast p) = Some (Dir r cs) \<Longrightarrow> p \<noteq> [] \<Longrightarrow> lookup (update_at p opt fs) p = opt"
  using lookup_update_at_below [of fs p r cs opt "[]"] by (cases opt) simp_all

lemma lookup_update_at_parallel: "parallel p q \<Longrightarrow> lookup (update_at p opt fs) q = lookup fs q"
  by (simp add: parallel_def lookup_update_at_other)

lemma lookup_os_write_file_other:
  "os_write_file fs p d = Inr fs' \<Longrightarrow> parallel p q \<Longrightarrow> lookup fs' q = lookup fs q"
  by (auto simp: os_write_file_def lookup_update_at_parallel split: option.splits node.splits if_splits)

lemma lookup_os_remove_other:
  "os_remove fs p = Inr fs' \<Longrightarrow> parallel p q \<Longrightarrow> lookup fs' q = lookup fs q"
  by (auto simp: os_remove_def lookup_update_at_parallel split: option.splits node.splits if_splits)

lemma lookup_os_rename_other:
  "os_rename fs old new = Inr fs' \<Longrightarrow> parallel old q \<Longrightarrow> parallel new q \<Longrightarrow> lookup fs' q = lookup fs q"
  by (auto simp: os_rename_def lookup_update_at_parallel split: option.splits node.splits if_splits)

lemma os_mkdirall_parent:
  "lookup fs (butlast p) = Some (Dir r cs) \<Longrightarrow> p \<noteq> [] \<Longrightarrow>
     os_mkdirall fs p =
       (case lookup fs p of
          Some (Dir _ _) \<Rightarrow> Inr fs
        | Some (File _ _) \<Rightarrow> Inl ENOTDIR
        | None \<Rightarrow> Inr (update_at p (Some (Dir True [])) fs))"
proof -
  assume par: "lookup fs (butlast p) = Some (Dir r cs)" and p: "p \<noteq> []"
  have "os_mkdirall fs (butlast p) = Inr fs"
    using par by (subst os_mkdirall.simps) simp
  with par p show ?thesis
    by (subst os_mkdirall.simps) (simp split: option.splits node.splits)
qed

lemma lookup_snoc_Some:
  "lookup fs (p @ [x]) = Some n \<Longrightarrow> \<exists>r cs. lookup fs p = Some (Dir r cs) \<and> map_of cs x = Some n"
  by (auto simp: lookup_snoc split: option.splits node.splits)

lemma os_rename_move:
  assumes "lookup fs old = Some n" "lookup fs new = None" "lookup fs (butlast new) = Some (Dir r cs)"
    "parallel old new" "parallel old (butlast new)" "old \<noteq> []" "new \<noteq> []"
  shows "\<exists>fs'. os_rename fs old new = Inr fs' \<and> lookup fs' new = Some n \<and> lookup fs' old = None \<and>
           (\<forall>q. parallel old q \<longrightarrow> parallel new q \<longrightarrow> lookup fs' q = lookup fs q)"
proof -
  let ?fs1 = "update_at old None fs"
  have np: "\<not> prefix old new" using assms(4) by (simp add: parallel_def)
  have "os_rename fs old new = Inr (update_at new (Some n) ?fs1)"
    using assms(1-3,6,7) np by (simp add: os_rename_def lookup_update_at_parallel)
  moreover have p1: "lookup ?fs1 (butlast new) = Some (Dir r cs)"
    using assms(3,5) by (simp add: lookup_update_at_parallel)
  have "lookup (update_at new (Some n) ?fs1) new = Some n" by (rule lookup_update_at_self [OF p1 assms(7)])
  moreover have "lookup (update_at new (Some n) ?fs1) old = None"
  proof -
    from assms(1) obtain ro co where "lookup fs (butlast old) = Some (Dir ro co)"
      using lookup_snoc_Some [of fs "butlast old" "last old" n] assms(6) by auto
    then have "lookup ?fs1 old = None" using lookup_update_at_self assms(6) by blast
    then show ?thesis using assms(4) by (simp add: lookup_update_at_parallel parallel_def)
  qed
  ultimately show ?thesis by (auto simp: lookup_update_at_parallel parallel_def)
qed

lemma wf_lookup_names: "wf_fs fs \<Longrightarrow> lookup fs p = Some n \<Longrightarrow> list_all fs_name p"
proof (induction p arbitrary: fs)
  case (Cons x xs)
  then obtain r cs c where "fs = Dir r cs" "map_of cs x = Some c" "lookup c xs = Some n"
    by (cases fs) (auto split: Option.bind_splits)
  moreover from this Cons.prems have "fs_name x" "wf_fs c" by (auto simp: list_all_iff dest!: map_of_SomeD)
  ultimately show ?case using Cons.IH by auto
qed simp

lemma lookup_append: "lookup fs (q @ r) = Option.bind (lookup fs q) (\<lambda>m. lookup m r)"
proof (induction q arbitrary: fs)
  case (Cons x q)
  then show ?case by (cases fs) (auto split: Option.bind_splits)
qed simp

lemma lookup_prefix_exists:
  "lookup fs p = Some n \<Longrightarrow> prefix q p \<Longrightarrow> \<exists>m. lookup fs q = Some m"
  by (auto simp: prefix_def lookup_append split: Option.bind_splits)

lemma lookup_strict_prefix_dir:
  "lookup fs p = Some n \<Longrightarrow> strict_prefix q p \<Longrightarrow> \<exists>r cs. lookup fs q = Some (Dir r cs)"
proof -
  assume l: "lookup fs p = Some n" and s: "strict_prefix q p"
  then obtain zs where zs: "p = q @ zs" "zs \<noteq> []" by (auto simp: strict_prefix_def prefix_def)
  then obtain x xs where p: "p = q @ x # xs" by (cases zs) auto
  with l obtain m where "lookup fs q = Some m" "lookup m (x # xs) = Some n"
    by (auto simp: lookup_append split: Option.bind_splits)
  then show ?thesis by (cases m) auto
qed

lemma lookup_update_at_ancestor:
  "strict_prefix q p \<Longrightarrow> lookup fs q = Some (Dir r cs) \<Longrightarrow> \<exists>cs'. lookup (update_at p opt fs) q = Some (Dir r cs')"
proof (induction p opt fs arbitrary: q rule: update_at.induct)
  case (2 x opt r' cs')
  then have "q = []" by (auto simp: strict_prefix_def prefix_Cons)
  with "2.prems" show ?case by simp
next
  case (3 x y ys opt r' cs')
  show ?case
  proof (cases q)
    case Nil
    with "3.prems" show ?thesis by simp
  next
    case (Cons z q')
    with "3.prems" have z: "z = x" and sq: "strict_prefix q' (y # ys)"
      by (auto simp: strict_prefix_def)
    from "3.prems"(2) Cons z obtain c where c: "map_of cs' x = Some c" and lc: "lookup c q' = Some (Dir r cs)"
      by (auto split: Option.bind_splits)
    from c have "(x, c) \<in> set cs'" by (rule map_of_SomeD)
    from "3.IH" [OF this refl refl sq lc] c Cons z show ?thesis by simp
  qed
next
  case (4 x xs opt r' d)
  then show ?case by (cases q) (auto simp: strict_prefix_def)
qed (simp add: strict_prefix_def)

text \<open>\<open>os.MkdirAll\<close> changes nothing but the ancestors of its target: a path that is
  not a prefix of the target resolves as before (below a directory it creates there was
  nothing before, and there is nothing after).\<close>

lemma os_mkdirall_frame:
  "os_mkdirall fs p = Inr fs' \<Longrightarrow> \<not> prefix q p \<Longrightarrow> lookup fs' q = lookup fs q"
proof (induction fs p arbitrary: fs' rule: os_mkdirall.induct)
  case (1 fs p)
  show ?case
  proof (cases "lookup fs p")
    case None
    with "1.prems" obtain fs1 r cs where m: "os_mkdirall fs (butlast p) = Inr fs1"
      and par: "lookup fs1 (butlast p) = Some (Dir r cs)" and p: "p \<noteq> []"
      and fs': "fs' = update_at p (Some (Dir True [])) fs1"
      by (subst (asm) os_mkdirall.simps) (auto split: sum.splits option.splits node.splits if_splits)
    show ?thesis
    proof (cases "prefix p q")
      case True
      then obtain x where q: "q = p @ x" by (auto simp: prefix_def)
      with "1.prems"(2) have "x \<noteq> []" by auto
      then show ?thesis
        using lookup_update_at_below [OF par p, of "Some (Dir True [])" x] None q fs'
        by (cases x) (simp_all add: lookup_append)
    next
      case False
      have "\<not> prefix q (butlast p)"
        using "1.prems"(2) strict_prefix_butlast [OF p] by (auto intro: prefix_order.trans simp: strict_prefix_def)
      with "1.IH" [OF None p m] have "lookup fs1 q = lookup fs q" by blast
      then show ?thesis using False "1.prems"(2) fs' by (simp add: lookup_update_at_other)
    qed
  next
    case (Some n)
    with "1.prems" show ?thesis
      by (subst (asm) os_mkdirall.simps) (auto split: node.splits)
  qed
qed

end
