(* ===== verification/Walk.thy ===== *)
theory Walk
  imports FileTree
begin

text \<open>
  The two directory walks of \<open>path/filepath\<close>, as the list of callback invocations they
  make. A visit records the path, the node the callback sees (\<open>None\<close> when \<open>Lstat\<close>
  failed) and whether the callback's \<open>err\<close> argument is non-nil. Both walks list a
  directory with its entries sorted by name and descend in that order.
  \<^item> \<open>filepath.WalkDir\<close> (used by \<open>rename.go\<close>) calls the callback on a directory
    before reading it; when \<open>os.ReadDir\<close> fails it calls it a second time with the
    error and visits no entry.
  \<^item> \<open>filepath.Walk\<close> (used by \<open>compress.go\<close>) reads a directory first and calls the
    callback once, with the read error if there was one, and then visits no entry.
  Neither caller changes the tree below the walk's root from its callback and neither
  returns \<open>SkipDir\<close>, so a walk is these visits in order; a callback that returns an
  error stops the walk, which its caller writes as a fold that stops at the first error.
\<close>

datatype visit = Visit (v_path: path) (v_info: "node option") (v_err: bool)

function walkdir_from :: "path \<Rightarrow> node \<Rightarrow> visit list" where
  "walkdir_from p (File r d) = [Visit p (Some (File r d)) False]"
| "walkdir_from p (Dir r cs) =
     Visit p (Some (Dir r cs)) False #
       (if r then concat (map (\<lambda>(k, c). walkdir_from (p @ [k]) c) (sort_key fst cs))
        else [Visit p (Some (Dir r cs)) True])"
  by pat_completeness auto
termination
  by (relation "measure (\<lambda>(p, n). size n)") (auto simp: size_list_pair_elem)

definition WalkDir :: "fs \<Rightarrow> path \<Rightarrow> visit list" where
  "WalkDir fs root =
     (case lookup fs root of None \<Rightarrow> [Visit root None True] | Some n \<Rightarrow> walkdir_from root n)"

function walk_from :: "path \<Rightarrow> node \<Rightarrow> visit list" where
  "walk_from p (File r d) = [Visit p (Some (File r d)) False]"
| "walk_from p (Dir r cs) =
     (if r then Visit p (Some (Dir r cs)) False #
                  concat (map (\<lambda>(k, c). walk_from (p @ [k]) c) (sort_key fst cs))
      else [Visit p (Some (Dir r cs)) True])"
  by pat_completeness auto
termination
  by (relation "measure (\<lambda>(p, n). size n)") (auto simp: size_list_pair_elem)

definition Walk :: "fs \<Rightarrow> path \<Rightarrow> visit list" where
  "Walk fs root =
     (case lookup fs root of None \<Rightarrow> [Visit root None True] | Some n \<Rightarrow> walk_from root n)"

text \<open>No visit is followed by a visit of one of its ancestors: the walks are pre-order.\<close>

fun ancestors_first :: "visit list \<Rightarrow> bool" where
  "ancestors_first [] = True"
| "ancestors_first (v # vs) =
     ((\<forall>w \<in> set vs. \<not> strict_prefix (v_path w) (v_path v)) \<and> ancestors_first vs)"

definition no_ancestor_after :: "visit list \<Rightarrow> visit list \<Rightarrow> bool" where
  "no_ancestor_after xs ys \<longleftrightarrow> (\<forall>x \<in> set xs. \<forall>y \<in> set ys. \<not> strict_prefix (v_path y) (v_path x))"

subsection \<open>Paths of the visits\<close>

lemma set_walkdir_from_Dir:
  "set (walkdir_from p (Dir r cs)) =
     insert (Visit p (Some (Dir r cs)) False)
       (if r then (\<Union>(k, c) \<in> set cs. set (walkdir_from (p @ [k]) c))
        else {Visit p (Some (Dir r cs)) True})"
  by auto

lemma set_walk_from_Dir:
  "set (walk_from p (Dir r cs)) =
     (if r then insert (Visit p (Some (Dir r cs)) False)
                  (\<Union>(k, c) \<in> set cs. set (walk_from (p @ [k]) c))
      else {Visit p (Some (Dir r cs)) True})"
  by auto

lemma walkdir_from_paths: "v \<in> set (walkdir_from p n) \<Longrightarrow> prefix p (v_path v)"
proof (induction p n rule: walkdir_from.induct)
  case (2 p r cs)
  consider "v_path v = p" | k c where "r" "(k, c) \<in> set (sort_key fst cs)"
      "v \<in> set (walkdir_from (p @ [k]) c)"
    using "2.prems" by (auto simp: set_walkdir_from_Dir split: if_splits)
  then show ?case
  proof cases
    case 2
    from "2.IH" [OF 2(1,2) refl 2(3)] show ?thesis by (rule prefix_snoc_prefix)
  qed simp
qed simp

lemma walk_from_paths: "v \<in> set (walk_from p n) \<Longrightarrow> prefix p (v_path v)"
proof (induction p n rule: walk_from.induct)
  case (2 p r cs)
  consider "v_path v = p" | k c where "r" "(k, c) \<in> set (sort_key fst cs)"
      "v \<in> set (walk_from (p @ [k]) c)"
    using "2.prems" by (auto simp: set_walk_from_Dir split: if_splits)
  then show ?case
  proof cases
    case 2
    from "2.IH" [OF 2(1,2) refl 2(3)] show ?thesis by (rule prefix_snoc_prefix)
  qed simp
qed simp

subsection \<open>Pre-order\<close>

lemma ancestors_first_append:
  "ancestors_first (xs @ ys) \<longleftrightarrow> ancestors_first xs \<and> ancestors_first ys \<and>
     (\<forall>x \<in> set xs. \<forall>y \<in> set ys. \<not> strict_prefix (v_path y) (v_path x))"
  by (induction xs) auto

lemma ancestors_first_concat:
  "(\<forall>xs \<in> set xss. ancestors_first xs) \<Longrightarrow> sorted_wrt no_ancestor_after xss \<Longrightarrow>
     ancestors_first (concat xss)"
  by (induction xss) (auto simp: ancestors_first_append no_ancestor_after_def)

lemma distinct_fst_sort_key: "distinct (map fst cs) \<Longrightarrow> distinct (map fst (sort_key fst cs))"
proof (rule card_distinct)
  assume d: "distinct (map fst cs)"
  have "card (set (map fst (sort_key fst cs))) = card (set (map fst cs))" by simp
  also have "\<dots> = length (map fst cs)" using d by (rule distinct_card)
  finally show "card (set (map fst (sort_key fst cs))) = length (map fst (sort_key fst cs))" by simp
qed

lemma sorted_wrt_distinct_fst:
  "distinct (map fst xs) \<Longrightarrow> sorted_wrt (\<lambda>a b. fst a \<noteq> fst b) xs"
  by (induction xs) (auto simp: image_iff)

lemma no_ancestor_after_siblings:
  "k1 \<noteq> k2 \<Longrightarrow> no_ancestor_after (walkdir_from (p @ [k1]) c1) (walkdir_from (p @ [k2]) c2)"
  unfolding no_ancestor_after_def
proof (intro ballI notI)
  fix x y
  assume k: "k1 \<noteq> k2" and x: "x \<in> set (walkdir_from (p @ [k1]) c1)"
    and y: "y \<in> set (walkdir_from (p @ [k2]) c2)" and s: "strict_prefix (v_path y) (v_path x)"
  have "prefix (p @ [k2]) (v_path x)"
    using walkdir_from_paths [OF y] s by (meson prefix_order.trans strict_prefix_def)
  with walkdir_from_paths [OF x] k show False by (auto dest: prefix_snoc_distinct)
qed

lemma not_strict_prefix_below: "prefix p q \<Longrightarrow> \<not> strict_prefix q p"
  by (simp add: prefix_order.leD)

lemma walkdir_from_ancestors_first: "wf_fs n \<Longrightarrow> ancestors_first (walkdir_from p n)"
proof (induction p n rule: walkdir_from.induct)
  case (2 p r cs)
  let ?blocks = "map (\<lambda>(k, c). walkdir_from (p @ [k]) c) (sort_key fst cs)"
  have below: "\<forall>w \<in> set (walkdir_from p (Dir r cs)). \<not> strict_prefix (v_path w) p"
    using walkdir_from_paths not_strict_prefix_below by blast
  show ?case
  proof (cases r)
    case True
    have "\<forall>xs \<in> set ?blocks. ancestors_first xs"
    proof
      fix xs assume "xs \<in> set ?blocks"
      then obtain k c where kc: "(k, c) \<in> set (sort_key fst cs)" and xs: "xs = walkdir_from (p @ [k]) c"
        by auto
      from kc "2.prems" have "wf_fs c" by (auto simp: list_all_iff)
      with "2.IH" [OF True kc refl] xs show "ancestors_first xs" by simp
    qed
    moreover have "sorted_wrt no_ancestor_after ?blocks"
    proof -
      have "distinct (map fst (sort_key fst cs))" using "2.prems" by (simp add: distinct_fst_sort_key)
      then have "sorted_wrt (\<lambda>a b. fst a \<noteq> fst b) (sort_key fst cs)" by (rule sorted_wrt_distinct_fst)
      then show ?thesis
        by (auto simp: sorted_wrt_map elim!: sorted_wrt_mono_rel [rotated] intro: no_ancestor_after_siblings)
    qed
    ultimately have "ancestors_first (concat ?blocks)" by (rule ancestors_first_concat)
    with below True show ?thesis by simp
  next
    case False
    then show ?thesis by simp
  qed
qed simp

subsection \<open>Walks of well-formed trees\<close>

lemma ancestors_first_sorted_wrt:
  "ancestors_first vs \<longleftrightarrow> sorted_wrt (\<lambda>v w. \<not> strict_prefix (v_path w) (v_path v)) vs"
  by (induction vs) auto

lemma WalkDir_ancestors_first: "wf_fs fs \<Longrightarrow> ancestors_first (WalkDir fs root)"
  by (auto simp: WalkDir_def walkdir_from_ancestors_first dest: wf_fs_lookup split: option.splits)

lemma walkdir_from_names:
  "wf_fs n \<Longrightarrow> v \<in> set (walkdir_from p n) \<Longrightarrow> v_path v \<noteq> p \<Longrightarrow> fs_name (last (v_path v))"
proof (induction p n rule: walkdir_from.induct)
  case (2 p r cs)
  then obtain k c where kc: "(k, c) \<in> set (sort_key fst cs)" and v: "v \<in> set (walkdir_from (p @ [k]) c)"
    and r: r
    by (auto simp: set_walkdir_from_Dir split: if_splits)
  from kc "2.prems"(1) have k: "fs_name k" and c: "wf_fs c" by (auto simp: list_all_iff)
  show ?case
  proof (cases "v_path v = p @ [k]")
    case True
    with k show ?thesis by simp
  next
    case False
    from "2.IH" [OF r kc refl c v False] show ?thesis .
  qed
qed simp

lemma WalkDir_names:
  "wf_fs fs \<Longrightarrow> v \<in> set (WalkDir fs root) \<Longrightarrow> v_path v \<noteq> root \<Longrightarrow> fs_name (last (v_path v))"
  by (auto simp: WalkDir_def dest: wf_fs_lookup walkdir_from_names split: option.splits)

lemma walkdir_from_exists:
  "wf_fs n \<Longrightarrow> v \<in> set (walkdir_from p n) \<Longrightarrow> \<exists>q. v_path v = p @ q \<and> lookup n q \<noteq> None"
proof (induction p n rule: walkdir_from.induct)
  case (2 p r cs)
  consider "v_path v = p" | k c where "r" "(k, c) \<in> set (sort_key fst cs)" "v \<in> set (walkdir_from (p @ [k]) c)"
    using "2.prems"(2) by (auto simp: set_walkdir_from_Dir split: if_splits)
  then show ?case
  proof cases
    case 1
    then show ?thesis by (intro exI [of _ "[]"]) simp
  next
    case (2 k c)
    have kc: "(k, c) \<in> set cs" using 2(2) by simp
    with "2.prems"(1) have wc: "wf_fs c" and mk: "map_of cs k = Some c"
      by (auto simp: list_all_iff intro: map_of_is_SomeI)
    from "2.IH" [OF 2(1,2) refl wc 2(3)] obtain q where "v_path v = p @ [k] @ q" "lookup c q \<noteq> None" by auto
    with mk show ?thesis by (intro exI [of _ "k # q"]) simp
  qed
qed (intro exI [of _ "[]"], simp)

lemma walkdir_from_distinct:
  "wf_fs n \<Longrightarrow> distinct (map v_path (filter (\<lambda>v. \<not> v_err v) (walkdir_from p n)))"
proof (induction p n rule: walkdir_from.induct)
  case (2 p r cs)
  let ?f = "\<lambda>(k, c). map v_path (filter (\<lambda>v. \<not> v_err v) (walkdir_from (p @ [k]) c))"
  have dk: "distinct (map fst (sort_key fst cs))" using "2.prems" by (simp add: distinct_fst_sort_key)
  have "distinct (concat (map ?f (sort_key fst cs)))" if r
  proof (rule distinct_concat_map_keys [OF dk])
    show "\<forall>x \<in> set (sort_key fst cs). distinct (?f x)"
      using "2.IH" [OF that] "2.prems" by (auto simp: list_all_iff)
    have disj: "set (?f (k, c)) \<inter> set (?f (k', c')) = {}" if "k \<noteq> k'" for k c k' c'
    proof -
      have False if "q \<in> set (?f (k, c))" "q \<in> set (?f (k', c'))" for q
      proof -
        from that have "prefix (p @ [k]) q" "prefix (p @ [k']) q" by (auto dest: walkdir_from_paths)
        then have "k = k'" by (rule prefix_snoc_distinct)
        with \<open>k \<noteq> k'\<close> show False ..
      qed
      then show ?thesis by blast
    qed
    show "\<forall>x \<in> set (sort_key fst cs). \<forall>y \<in> set (sort_key fst cs). fst x \<noteq> fst y \<longrightarrow> set (?f x) \<inter> set (?f y) = {}"
      using disj by fastforce
  qed
  moreover have "p \<notin> v_path ` set (walkdir_from (p @ [k]) c)" for k c
    using walkdir_from_paths [of _ "p @ [k]" c] by (fastforce simp: prefix_def)
  ultimately show ?case
    by (auto simp: map_concat filter_concat comp_def case_prod_unfold)
qed simp

end
