(* ===== verification/GoStrings.thy ===== *)
theory GoStrings
  imports Prelude
begin

text \<open>
  The string functions of Go's standard library the tools call: \<open>fmt\<close>'s \<open>%d\<close> on a
  non-negative \<open>int\<close> (\<open>itoa\<close>), \<open>filepath.Ext\<close>, \<open>strings.TrimSuffix\<close> and
  \<open>strings.HasPrefix\<close>. \<open>atoi\<close> reads decimal digits back; it is not called by the
  tools and serves the round trip \<open>atoi (itoa n) = n\<close>, from which \<open>itoa\<close> is
  injective: the renamer's collision loop relies on that to produce a new candidate name
  at every step.
\<close>

fun itoa :: "nat \<Rightarrow> string" where
  "itoa n = (if n < 10 then [char_of (48 + n)] else itoa (n div 10) @ [char_of (48 + n mod 10)])"

declare itoa.simps [simp del]

fun atoi_acc :: "nat \<Rightarrow> string \<Rightarrow> nat" where
  "atoi_acc acc [] = acc"
| "atoi_acc acc (c # cs) = atoi_acc (acc * 10 + (of_char c - 48)) cs"

definition atoi :: "string \<Rightarrow> nat" where
  "atoi s = atoi_acc 0 s"

text \<open>\<open>filepath.Ext\<close>: scanning from the end, the suffix from the last \<open>.\<close> of the
  last path element, or the empty string.\<close>

fun ext_scan :: "string \<Rightarrow> string \<Rightarrow> string" where
  "ext_scan [] acc = []"
| "ext_scan (c # r) acc =
     (if c = CHR ''/'' then [] else if c = CHR ''.'' then c # acc else ext_scan r (c # acc))"

definition Ext :: "string \<Rightarrow> string" where
  "Ext path = ext_scan (rev path) []"

definition TrimSuffix :: "string \<Rightarrow> string \<Rightarrow> string" where
  "TrimSuffix s suf = (if suffix suf s then take (length s - length suf) s else s)"

definition HasPrefix :: "string \<Rightarrow> string \<Rightarrow> bool" where
  "HasPrefix s pre \<longleftrightarrow> prefix pre s"

subsection \<open>Decimal printing\<close>

lemma of_char_digit: "k < 10 \<Longrightarrow> of_char (char_of (48 + k)) = (48 + k :: nat)"
  by simp

lemma itoa_digits: "c \<in> set (itoa n) \<Longrightarrow> 48 \<le> (of_char c :: nat) \<and> (of_char c :: nat) \<le> 57"
proof (induction n rule: itoa.induct)
  case (1 n)
  show ?case
  proof (cases "n < 10")
    case True
    with "1.prems" have "c = char_of (48 + n)" by (simp add: itoa.simps [of n])
    with True show ?thesis by (simp add: of_char_digit)
  next
    case False
    then have "itoa n = itoa (n div 10) @ [char_of (48 + n mod 10)]"
      by (simp add: itoa.simps [of n])
    with "1.prems" have "c \<in> set (itoa (n div 10)) \<or> c = char_of (48 + n mod 10)"
      by auto
    then show ?thesis
    proof
      assume "c = char_of (48 + n mod 10)"
      then show ?thesis by (simp add: of_char_digit)
    qed (rule "1.IH" [OF False])
  qed
qed

lemma itoa_not_Nil [simp]: "itoa n \<noteq> []"
  by (simp add: itoa.simps [of n])

lemma atoi_acc_append: "atoi_acc acc (xs @ ys) = atoi_acc (atoi_acc acc xs) ys"
  by (induction xs arbitrary: acc) auto

lemma atoi_itoa_acc: "atoi_acc acc (itoa n) = acc * 10 ^ length (itoa n) + n"
proof (induction n arbitrary: acc rule: itoa.induct)
  case (1 n)
  show ?case
  proof (cases "n < 10")
    case True
    then show ?thesis by (simp add: itoa.simps)
  next
    case False
    have "atoi_acc acc (itoa n) =
          atoi_acc (atoi_acc acc (itoa (n div 10))) [char_of (48 + n mod 10)]"
      using False by (simp add: itoa.simps [of n] atoi_acc_append)
    also have "\<dots> = (acc * 10 ^ length (itoa (n div 10)) + n div 10) * 10 + n mod 10"
      using "1.IH" [OF False] by simp
    also have "\<dots> = acc * 10 ^ length (itoa n) + n"
      using False by (simp add: itoa.simps [of n] algebra_simps)
    finally show ?thesis .
  qed
qed

lemma atoi_itoa: "atoi (itoa n) = n"
  by (simp add: atoi_def atoi_itoa_acc)

lemma itoa_inject [simp]: "itoa m = itoa n \<longleftrightarrow> m = n"
proof
  assume "itoa m = itoa n"
  then have "atoi (itoa m) = atoi (itoa n)" by (rule arg_cong)
  then show "m = n" by (simp only: atoi_itoa)
qed simp

subsection \<open>Extensions\<close>

lemma ext_scan_shape: "ext_scan r acc = [] \<or> (\<exists>k. ext_scan r acc = rev (take k r) @ acc)"
proof (induction r arbitrary: acc)
  case (Cons c r)
  show ?case
  proof (cases "c = CHR ''/'' \<or> c = CHR ''.''")
    case True
    then show ?thesis by (auto intro: exI [of _ 1])
  next
    case False
    from Cons.IH [of "c # acc"] show ?thesis
    proof
      assume "\<exists>k. ext_scan r (c # acc) = rev (take k r) @ c # acc"
      then obtain k where "ext_scan r (c # acc) = rev (take k r) @ c # acc" ..
      with False have "ext_scan (c # r) acc = rev (take (Suc k) (c # r)) @ acc" by simp
      then show ?thesis by blast
    qed (use False in simp)
  qed
qed simp

lemma suffix_Ext: "suffix (Ext s) s"
proof -
  from ext_scan_shape [of "rev s" "[]"] consider "Ext s = []" | k where "Ext s = rev (take k (rev s))"
    by (auto simp: Ext_def)
  then show ?thesis
  proof cases
    case 2
    then have "Ext s = drop (length s - k) s" by (simp add: rev_take)
    then show ?thesis by (simp add: suffix_drop)
  qed simp
qed

lemma take_suffix_append: "suffix t s \<Longrightarrow> take (length s - length t) s @ t = s"
  by (auto simp: suffix_def)

lemma TrimSuffix_Ext: "TrimSuffix s (Ext s) @ Ext s = s"
  using suffix_Ext [of s] by (simp add: TrimSuffix_def take_suffix_append)

lemma set_Ext: "set (Ext s) \<subseteq> set s"
  using suffix_Ext [of s] by (rule set_mono_suffix)

lemma set_TrimSuffix_Ext: "set (TrimSuffix s (Ext s)) \<subseteq> set s"
  using TrimSuffix_Ext [of s] by (metis Un_upper1 set_append)

end
