(* ===== verification/Renamer.thy ===== *)
theory Renamer
  imports Sanitize Walk GoStrings
begin

text \<open>
  The renamer's \<open>main\<close> (\<open>src/rename.go\<close>). Step 1 walks the tree with
  \<open>filepath.WalkDir\<close>; for every path below the root whose base name fails the skip test
  the callback computes the sanitized name and resolves collisions against the tree as it
  is during the walk (\<open>rename_candidate\<close>, with the loop of lines 78--86 as
  \<open>resolve_collision\<close>), collecting the pairs in walk order (\<open>collect_candidates\<close>).
  Step 2 renames the pairs in reverse order with \<open>os.Rename\<close>, or only prints them in a
  dry run (\<open>apply_renames\<close>). The walk callback never returns an error, so the branch
  \<open>Error during scan\<close> (lines 96--99) is unreachable and has no counterpart here.
\<close>

text \<open>\<open>fileExists\<close> (lines 136--139): \<open>os.Stat\<close> succeeds.\<close>

definition fileExists :: "fs \<Rightarrow> path \<Rightarrow> bool" where
  "fileExists fs p = (case os_stat fs p of Inr _ \<Rightarrow> True | Inl _ \<Rightarrow> False)"

text \<open>The candidate of the collision loop at a given suffix (lines 83--84):
  \<open>filepath.Join(dir, fmt.Sprintf("%s_%d%s", nameOnly, suffix, ext))\<close>.\<close>

definition suffixed :: "path \<Rightarrow> string \<Rightarrow> string \<Rightarrow> nat \<Rightarrow> path" where
  "suffixed dir nameOnly ext n = dir @ [nameOnly @ ''_'' @ itoa n @ ext]"

text \<open>The collision loop (lines 80--86): while the candidate exists and is not the
  path being renamed, try the next suffix. It terminates because the suffixed candidates
  are pairwise distinct (\<open>itoa\<close> is injective) and only finitely many paths exist: the
  number of existing candidates from the current suffix on strictly decreases.\<close>

function resolve_collision :: "fs \<Rightarrow> path \<Rightarrow> path \<Rightarrow> string \<Rightarrow> string \<Rightarrow> nat \<Rightarrow> path \<Rightarrow> path" where
  "resolve_collision fs path dir nameOnly ext n newPath =
     (if fileExists fs newPath \<and> newPath \<noteq> path
      then resolve_collision fs path dir nameOnly ext (Suc n) (suffixed dir nameOnly ext n)
      else newPath)"
  by pat_completeness auto
termination
proof (relation "measure (\<lambda>(fs, path, dir, nameOnly, ext, n, newPath).
    (if fileExists fs newPath then 1 else 0) +
    card {m. n \<le> m \<and> fileExists fs (suffixed dir nameOnly ext m)})")
  fix fs path dir nameOnly ext n newPath
  assume "fileExists fs newPath \<and> newPath \<noteq> path"
  let ?E = "\<lambda>m. fileExists fs (suffixed dir nameOnly ext m)"
  have "inj (suffixed dir nameOnly ext)" by (rule injI) (simp add: suffixed_def)
  then have "finite (suffixed dir nameOnly ext -` {p. lookup fs p \<noteq> None})"
    by (rule finite_vimageI [OF finite_existing])
  then have fin: "finite {m. Suc n \<le> m \<and> ?E m}"
    by (rule rev_finite_subset) (auto simp: fileExists_def os_stat_def split: option.splits)
  have split: "{m. n \<le> m \<and> ?E m} = (if ?E n then insert n else id) {m. Suc n \<le> m \<and> ?E m}"
    by (auto simp: Suc_le_eq order_le_less)
  show "((fs, path, dir, nameOnly, ext, Suc n, suffixed dir nameOnly ext n),
         fs, path, dir, nameOnly, ext, n, newPath) \<in> measure (\<lambda>(fs, path, dir, nameOnly, ext, n, newPath).
    (if fileExists fs newPath then 1 else 0) +
    card {m. n \<le> m \<and> fileExists fs (suffixed dir nameOnly ext m)})"
    using \<open>fileExists fs newPath \<and> newPath \<noteq> path\<close> fin by (simp add: split)
qed simp

declare resolve_collision.simps [simp del]

text \<open>The walk callback (lines 51--94) on one visit: \<open>None\<close> where it returns early,
  \<open>Some (oldPath, newPath)\<close> where it appends a pair.\<close>

definition rename_candidate :: "fs \<Rightarrow> path \<Rightarrow> visit \<Rightarrow> (path \<times> path) option" where
  "rename_candidate fs root v =
     (if v_err v then None
      else if v_path v = root then None
      else
        (let path = v_path v; oldName = last path in
         if already_valid oldName then None
         else
           (let sanitized = sanitizeName oldName in
            if oldName = sanitized then None
            else
              (let dir = butlast path; base = sanitized; ext = Ext base;
                   nameOnly = TrimSuffix base ext
               in Some (path, resolve_collision fs path dir nameOnly ext 1 (dir @ [base]))))))"

text \<open>Step 1: the pairs, in the order the walk discovers them.\<close>

definition collect_candidates :: "fs \<Rightarrow> path \<Rightarrow> (path \<times> path) list" where
  "collect_candidates fs root = List.map_filter (rename_candidate fs root) (WalkDir fs root)"

text \<open>What step 2 prints: the pair, and the error of a failed rename.\<close>

datatype rename_msg = Planned path path | RenameFailed os_error

text \<open>One iteration of step 2 (lines 103--111).\<close>

definition rename_one :: "bool \<Rightarrow> fs \<Rightarrow> path \<Rightarrow> path \<Rightarrow> fs \<times> rename_msg list" where
  "rename_one dry fs old new =
     (if dry then (fs, [Planned old new])
      else (case os_rename fs old new of
              Inl e \<Rightarrow> (fs, [Planned old new, RenameFailed e])
            | Inr fs' \<Rightarrow> (fs', [Planned old new])))"

text \<open>Step 2 (lines 101--112), given the pairs already reversed.\<close>

fun apply_renames :: "bool \<Rightarrow> fs \<Rightarrow> (path \<times> path) list \<Rightarrow> fs \<times> rename_msg list" where
  "apply_renames dry fs [] = (fs, [])"
| "apply_renames dry fs ((old, new) # ps) =
     (case rename_one dry fs old new of
        (fs1, ms1) \<Rightarrow> (case apply_renames dry fs1 ps of (fs2, ms2) \<Rightarrow> (fs2, ms1 @ ms2)))"

text \<open>How \<open>main\<close> ends: the usage message (exit status 1), an invalid folder, or a
  completed run with its dry-run flag, the number of pairs and the messages of step 2.\<close>

datatype rename_outcome = Usage | InvalidFolder path | Finished bool nat "rename_msg list"

text \<open>\<open>main\<close> (lines 18--128), from the parsed \<open>--dry\<close> flag and the positional
  arguments, each resolved to a path of the tree. The path \<open>[]\<close> is the argument
  \<open>/\<close>, which \<open>strings.TrimSuffix\<close> (line 38) turns into the empty string that
  \<open>os.Stat\<close> rejects.\<close>

definition main_rename :: "bool \<Rightarrow> path list \<Rightarrow> fs \<Rightarrow> rename_outcome \<times> fs" where
  "main_rename dry args fs =
     (case args of
        [] \<Rightarrow> (Usage, fs)
      | root # _ \<Rightarrow>
          (if root = [] then (InvalidFolder root, fs)
           else
             (case os_stat fs root of
                Inl _ \<Rightarrow> (InvalidFolder root, fs)
              | Inr info \<Rightarrow>
                  (if \<not> is_dir info then (InvalidFolder root, fs)
                   else
                     (let ps = collect_candidates fs root in
                      case apply_renames dry fs (rev ps) of
                        (fs', ms) \<Rightarrow> (Finished dry (length ps) ms, fs'))))))"

subsection \<open>The collision loop\<close>

lemma finite_suffixed_existing:
  "finite {m. k \<le> m \<and> fileExists fs (suffixed dir nameOnly ext m)}"
proof -
  have "inj (suffixed dir nameOnly ext)" by (rule injI) (simp add: suffixed_def)
  then have "finite (suffixed dir nameOnly ext -` {p. lookup fs p \<noteq> None})"
    by (rule finite_vimageI [OF finite_existing])
  then show ?thesis
    by (rule rev_finite_subset) (auto simp: fileExists_def os_stat_def split: option.splits)
qed

lemma suffix_count_step:
  "card {m. n \<le> m \<and> fileExists fs (suffixed dir nameOnly ext m)} =
     (if fileExists fs (suffixed dir nameOnly ext n) then 1 else 0) +
     card {m. Suc n \<le> m \<and> fileExists fs (suffixed dir nameOnly ext m)}"
proof -
  let ?E = "\<lambda>m. fileExists fs (suffixed dir nameOnly ext m)"
  have "{m. n \<le> m \<and> ?E m} = (if ?E n then insert n else id) {m. Suc n \<le> m \<and> ?E m}"
    by (auto simp: Suc_le_eq order_le_less)
  then show ?thesis using finite_suffixed_existing [of "Suc n" fs dir nameOnly ext] by simp
qed

lemma suffix_count_le:
  "card {m. k \<le> m \<and> fileExists fs (suffixed dir nameOnly ext m)} \<le> length (all_paths fs)"
proof -
  have "card {m. k \<le> m \<and> fileExists fs (suffixed dir nameOnly ext m)} \<le> card {p. lookup fs p \<noteq> None}"
  proof (rule card_inj_on_le)
    show "inj_on (suffixed dir nameOnly ext) {m. k \<le> m \<and> fileExists fs (suffixed dir nameOnly ext m)}"
      by (rule inj_onI) (simp add: suffixed_def)
  qed (use finite_existing [of fs] in \<open>auto simp: fileExists_def os_stat_def split: option.splits\<close>)
  also have "\<dots> \<le> card (set (all_paths fs))"
    by (rule card_mono) (auto dest: lookup_all_paths)
  also have "\<dots> \<le> length (all_paths fs)" by (rule card_length)
  finally show ?thesis .
qed

lemma resolve_collision_free:
  "resolve_collision fs path dir nameOnly ext n newPath = path \<or>
   \<not> fileExists fs (resolve_collision fs path dir nameOnly ext n newPath)"
proof (induction fs path dir nameOnly ext n newPath rule: resolve_collision.induct)
  case (1 fs path dir nameOnly ext n newPath)
  show ?case
  proof (cases "fileExists fs newPath \<and> newPath \<noteq> path")
    case True
    then have eq: "resolve_collision fs path dir nameOnly ext n newPath =
               resolve_collision fs path dir nameOnly ext (Suc n) (suffixed dir nameOnly ext n)"
      by (simp add: resolve_collision.simps [of fs path dir nameOnly ext n])
    show ?thesis unfolding eq by (rule "1.IH" [OF True])
  next
    case False
    then have "resolve_collision fs path dir nameOnly ext n newPath = newPath"
      by (subst resolve_collision.simps) (rule if_not_P [OF False])
    with False show ?thesis by auto
  qed
qed

lemma resolve_collision_range:
  "resolve_collision fs path dir nameOnly ext n newPath = newPath \<or>
   (\<exists>m. n \<le> m \<and>
        m < n + (if fileExists fs newPath then 1 else 0) +
              card {k. n \<le> k \<and> fileExists fs (suffixed dir nameOnly ext k)} \<and>
        resolve_collision fs path dir nameOnly ext n newPath = suffixed dir nameOnly ext m)"
proof (induction fs path dir nameOnly ext n newPath rule: resolve_collision.induct)
  case (1 fs path dir nameOnly ext n newPath)
  show ?case
  proof (cases "fileExists fs newPath \<and> newPath \<noteq> path")
    case True
    then have r: "resolve_collision fs path dir nameOnly ext n newPath =
                  resolve_collision fs path dir nameOnly ext (Suc n) (suffixed dir nameOnly ext n)"
      by (simp add: resolve_collision.simps [of fs path dir nameOnly ext n])
    let ?C = "card {k. Suc n \<le> k \<and> fileExists fs (suffixed dir nameOnly ext k)}"
    let ?e = "if fileExists fs (suffixed dir nameOnly ext n) then 1 else (0::nat)"
    from "1.IH" [OF True] consider
        "resolve_collision fs path dir nameOnly ext (Suc n) (suffixed dir nameOnly ext n) =
           suffixed dir nameOnly ext n"
      | m where "Suc n \<le> m" "m < Suc n + ?e + ?C"
          "resolve_collision fs path dir nameOnly ext (Suc n) (suffixed dir nameOnly ext n) =
             suffixed dir nameOnly ext m"
      by auto
    then show ?thesis
    proof cases
      case 1
      with True show ?thesis unfolding r by auto
    next
      case (2 m)
      with True have "n \<le> m \<and> m < n + 1 + (?e + ?C)" by simp
      with 2(3) True show ?thesis unfolding r suffix_count_step [of n fs dir nameOnly ext] by auto
    qed
  next
    case False
    then have "resolve_collision fs path dir nameOnly ext n newPath = newPath"
      by (subst resolve_collision.simps) (rule if_not_P [OF False])
    then show ?thesis by simp
  qed
qed

subsection \<open>Candidates\<close>

lemma name_char_itoa: "list_all name_char (itoa n)"
  using itoa_digits [of _ n] by (auto simp: list_all_iff name_char_def name_rune_def)

lemma fs_name_of_chars: "list_all name_char s \<Longrightarrow> CHR ''_'' \<in> set s \<Longrightarrow> fs_name s"
  by (auto simp: fs_name_def list_all_iff name_char_def name_rune_def)

lemma rename_candidate_SomeD:
  "rename_candidate fs root v = Some (old, new) \<Longrightarrow>
     old = v_path v \<and> \<not> v_err v \<and> old \<noteq> root \<and> last old \<noteq> [] \<and> \<not> already_valid (last old) \<and>
     new = resolve_collision fs old (butlast old)
             (TrimSuffix (sanitizeName (last old)) (Ext (sanitizeName (last old))))
             (Ext (sanitizeName (last old))) 1 (butlast old @ [sanitizeName (last old)])"
  by (auto simp: rename_candidate_def Let_def split: if_splits)

lemma suffixed_name_chars:
  assumes "list_all name_char s"
  shows "butlast (suffixed dir (TrimSuffix s (Ext s)) (Ext s) m) = dir \<and>
    list_all name_char (last (suffixed dir (TrimSuffix s (Ext s)) (Ext s) m)) \<and>
    CHR ''_'' \<in> set (last (suffixed dir (TrimSuffix s (Ext s)) (Ext s) m))"
proof -
  have "list_all name_char (Ext s)" using set_Ext [of s] assms by (auto simp: list_all_iff)
  moreover have "list_all name_char (TrimSuffix s (Ext s))"
    using set_TrimSuffix_Ext [of s] assms by (auto simp: list_all_iff)
  ultimately show ?thesis using name_char_itoa [of m] by (simp add: suffixed_def)
qed

lemma resolve_collision_other_path:
  "(\<forall>m \<ge> n. suffixed dir nameOnly ext m \<noteq> path \<and> suffixed dir nameOnly ext m \<noteq> path') \<Longrightarrow>
   newPath \<noteq> path \<Longrightarrow> newPath \<noteq> path' \<Longrightarrow>
   resolve_collision fs path dir nameOnly ext n newPath = resolve_collision fs path' dir nameOnly ext n newPath"
proof (induction fs path dir nameOnly ext n newPath rule: resolve_collision.induct)
  case (1 fs path dir nameOnly ext n newPath)
  have "resolve_collision fs path dir nameOnly ext (Suc n) (suffixed dir nameOnly ext n) =
        resolve_collision fs path' dir nameOnly ext (Suc n) (suffixed dir nameOnly ext n)"
    if "fileExists fs newPath" using that "1.prems" by (intro "1.IH") auto
  then show ?case using "1.prems"(2,3)
    by (simp add: resolve_collision.simps [of fs path dir nameOnly ext n]
        resolve_collision.simps [of fs path' dir nameOnly ext n])
qed

lemma suffixed_already_valid:
  "list_all name_char s \<Longrightarrow> already_valid (last (suffixed dir (TrimSuffix s (Ext s)) (Ext s) m))"
  using suffixed_name_chars [of s dir m]
  by (auto simp: already_valid_iff valid_name_pattern_def)

lemma rename_candidate_new:
  "rename_candidate fs root v = Some (old, new) \<Longrightarrow>
     old = v_path v \<and> butlast new = butlast old \<and> new \<noteq> [] \<and>
     list_all name_char (last new) \<and> CHR ''_'' \<in> set (last new) \<and>
     new \<noteq> old \<and> \<not> fileExists fs new"
proof -
  assume h: "rename_candidate fs root v = Some (old, new)"
  let ?s = "sanitizeName (last old)"
  note d = rename_candidate_SomeD [OF h]
  have s: "list_all name_char ?s" by (rule sanitize_chars)
  from d have "\<not> list_all name_char (last old)"
    by (auto simp: already_valid_iff valid_name_pattern_def)
  then have u: "CHR ''_'' \<in> set ?s" by (rule sanitize_underscore)
  have shape: "butlast new = butlast old \<and> new \<noteq> [] \<and> list_all name_char (last new) \<and> CHR ''_'' \<in> set (last new)"
  proof -
    from resolve_collision_range [of fs old "butlast old" "TrimSuffix ?s (Ext ?s)" "Ext ?s" 1
        "butlast old @ [?s]"] d
    consider "new = butlast old @ [?s]" | m where "new = suffixed (butlast old) (TrimSuffix ?s (Ext ?s)) (Ext ?s) m"
      by auto
    then show ?thesis
    proof cases
      case 1
      with s u show ?thesis by simp
    next
      case (2 m)
      with suffixed_name_chars [OF s, of "butlast old" m] show ?thesis by (auto simp: suffixed_def)
    qed
  qed
  have "new \<noteq> old"
  proof
    assume "new = old"
    with shape d show False by (auto simp: already_valid_iff valid_name_pattern_def)
  qed
  moreover from d have "new = old \<or> \<not> fileExists fs new" using resolve_collision_free by metis
  ultimately show ?thesis using shape d by blast
qed

subsection \<open>Step 2 and main\<close>

lemma apply_renames_dry: "apply_renames True fs ps = (fs, map (\<lambda>(old, new). Planned old new) ps)"
  by (induction ps) (auto simp: rename_one_def)

lemma main_rename_Nil: "main_rename dry [] fs = (Usage, fs)"
  by (simp add: main_rename_def)

lemma main_rename_empty_root: "main_rename dry ([] # rest) fs = (InvalidFolder [], fs)"
  by (simp add: main_rename_def)

lemma main_rename_Cons:
  "root \<noteq> [] \<Longrightarrow> main_rename dry (root # rest) fs =
     (case lookup fs root of
        Some (Dir _ _) \<Rightarrow>
          (Finished dry (length (collect_candidates fs root))
             (snd (apply_renames dry fs (rev (collect_candidates fs root)))),
           fst (apply_renames dry fs (rev (collect_candidates fs root))))
      | _ \<Rightarrow> (InvalidFolder root, fs))"
  by (auto simp: main_rename_def os_stat_def Let_def split: option.splits node.splits prod.splits)

subsection \<open>Properties of the renamer\<close>

text \<open>C1: the path the walk callback resolves for a name does not exist in the tree the walk sees (lines 78--86): collision resolution never picks an existing entry. The escape \<open>newPath != path\<close> of the loop never applies, since the new path differs from the old one.\<close>

theorem candidate_target_free:
  "rename_candidate fs root v = Some (old, new) \<Longrightarrow> \<not> fileExists fs new"
  using rename_candidate_new by blast

theorem candidate_target_free_witness:
  "rename_candidate (Dir True [(''r'', Dir True [(''a b'', File True (Plain ''1'')), (''a__b'', File True (Plain ''2''))])])
     [''r''] (Visit [''r'', ''a b''] (Some (File True (Plain ''1''))) False) = Some ([''r'', ''a b''], [''r'', ''a__b_1''])
   \<and> \<not> fileExists (Dir True [(''r'', Dir True [(''a b'', File True (Plain ''1'')), (''a__b'', File True (Plain ''2''))])]) [''r'', ''a__b_1'']"
proof -
  have h: "rename_candidate (Dir True [(''r'', Dir True [(''a b'', File True (Plain ''1'')), (''a__b'', File True (Plain ''2''))])])
     [''r''] (Visit [''r'', ''a b''] (Some (File True (Plain ''1''))) False) = Some ([''r'', ''a b''], [''r'', ''a__b_1''])"
    by code_simp
  then show ?thesis using candidate_target_free [OF h] by simp
qed

text \<open>C3: in the order step 2 applies the pairs (the walk order reversed), no path comes before one of its strict descendants: a directory is renamed after every entry below it.\<close>

theorem renames_bottom_up:
  "wf_fs fs \<Longrightarrow> sorted_wrt (\<lambda>a b. \<not> strict_prefix (fst a) (fst b)) (rev (collect_candidates fs root))"
proof -
  assume "wf_fs fs"
  then have "sorted_wrt (\<lambda>v w. \<not> strict_prefix (v_path w) (v_path v)) (WalkDir fs root)"
    using WalkDir_ancestors_first ancestors_first_sorted_wrt by blast
  then have "sorted_wrt (\<lambda>a b. \<not> strict_prefix (fst b) (fst a)) (collect_candidates fs root)"
    unfolding collect_candidates_def
    by (rule sorted_wrt_map_filter) (auto dest!: rename_candidate_SomeD)
  then show ?thesis by (simp add: sorted_wrt_rev)
qed

theorem renames_bottom_up_witness:
  "wf_fs (Dir True [(''r b'', Dir True [(''c d'', File True (Plain ''1''))])]) \<and>
   rev (collect_candidates (Dir True [(''r b'', Dir True [(''c d'', File True (Plain ''1''))])]) []) =
     [([''r b'', ''c d''], [''r b'', ''c__d'']), ([''r b''], [''r__b''])] \<and>
   sorted_wrt (\<lambda>a b. \<not> strict_prefix (fst a) (fst b))
     [([''r b'', ''c d''], [''r b'', ''c__d'']), ([''r b''], [''r__b''])]"
proof -
  have wf: "wf_fs (Dir True [(''r b'', Dir True [(''c d'', File True (Plain ''1''))])])"
    by (simp add: fs_name_def)
  have c: "rev (collect_candidates (Dir True [(''r b'', Dir True [(''c d'', File True (Plain ''1''))])]) []) =
     [([''r b'', ''c d''], [''r b'', ''c__d'']), ([''r b''], [''r__b''])]"
    by code_simp
  from renames_bottom_up [OF wf, of "[]"] wf c show ?thesis by simp
qed

text \<open>C14: two entries of one directory whose names sanitize to the same name get the same
  target: the callback resolves collisions against the tree as the walk sees it, never
  against the targets of pairs already collected. In step 2 the second \<open>os.Rename\<close> onto
  that target then fails for a directory or silently replaces the file the first one put
  there.\<close>

theorem collision_same_target:
  assumes "(old1, new1) \<in> set (collect_candidates fs root)" "(old2, new2) \<in> set (collect_candidates fs root)"
    and "butlast old1 = butlast old2" "sanitizeName (last old1) = sanitizeName (last old2)"
  shows "new1 = new2"
proof -
  let ?s = "sanitizeName (last old1)"
  let ?dir = "butlast old1"
  from assms(1,2) obtain v1 v2 where c1: "rename_candidate fs root v1 = Some (old1, new1)"
    and c2: "rename_candidate fs root v2 = Some (old2, new2)"
    by (auto simp: collect_candidates_def in_set_map_filter)
  note d1 = rename_candidate_SomeD [OF c1] and d2 = rename_candidate_SomeD [OF c2]
  have ne: "?s \<noteq> last old1" "?s \<noteq> last old2"
    using sanitize_changes [of "last old1"] sanitize_changes [of "last old2"] d1 d2 assms(4) by auto
  have first: "?dir @ [?s] \<noteq> old1" "?dir @ [?s] \<noteq> old2"
    using ne last_snoc [of ?dir ?s] by metis+
  have "suffixed ?dir (TrimSuffix ?s (Ext ?s)) (Ext ?s) m \<noteq> old"
    if "\<not> already_valid (last old)" for m old
    using that suffixed_already_valid [of ?s ?dir m, OF sanitize_chars] by auto
  with d1 d2 have "\<forall>m \<ge> 1. suffixed ?dir (TrimSuffix ?s (Ext ?s)) (Ext ?s) m \<noteq> old1 \<and>
                    suffixed ?dir (TrimSuffix ?s (Ext ?s)) (Ext ?s) m \<noteq> old2" by blast
  from resolve_collision_other_path [OF this first] d1 d2 assms(3,4) show ?thesis by simp
qed

theorem collision_same_target_witness:
  "([''r'', ''a b''], [''r'', ''a__b'']) \<in> set (collect_candidates (Dir True [(''r'', Dir True [(''a b'', File True (Plain ''one'')),
      (''a?b'', File True (Plain ''two''))])]) [''r'']) \<and>
   ([''r'', ''a?b''], [''r'', ''a__b'']) \<in> set (collect_candidates (Dir True [(''r'', Dir True [(''a b'', File True (Plain ''one'')),
      (''a?b'', File True (Plain ''two''))])]) [''r''])"
proof -
  let ?fs = "Dir True [(''r'', Dir True [(''a b'', File True (Plain ''one'')), (''a?b'', File True (Plain ''two''))])]"
  have h: "([''r'', ''a b''], [''r'', ''a__b'']) \<in> set (collect_candidates ?fs [''r''])"
    "(([''r'', ''a?b'']), [''r'', ''a__b'']) \<in> set (collect_candidates ?fs [''r''])"
    "butlast [''r'', ''a b''] = butlast [''r'', ''a?b'']"
    "sanitizeName (last [''r'', ''a b'']) = sanitizeName (last [''r'', ''a?b''])"
    by code_simp+
  from collision_same_target [OF h] h show ?thesis by simp
qed

text \<open>C17: a pair the callback appends renames the visited path within its directory to a different name that passes the skip test of line 64.\<close>

theorem candidate_target_valid:
  "rename_candidate fs root v = Some (old, new) \<Longrightarrow>
     old = v_path v \<and> new \<noteq> old \<and> butlast new = butlast old \<and> already_valid (last new)"
  using rename_candidate_new [of fs root v old new]
  by (auto simp: already_valid_iff valid_name_pattern_def)

theorem candidate_target_valid_witness:
  "rename_candidate (Dir True [(''r'', Dir True [(''a+b'', File True (Plain ''1''))])])
     [''r''] (Visit [''r'', ''a+b''] (Some (File True (Plain ''1''))) False) = Some ([''r'', ''a+b''], [''r'', ''a_PLUS_b''])
   \<and> already_valid ''a_PLUS_b''"
proof -
  have h: "rename_candidate (Dir True [(''r'', Dir True [(''a+b'', File True (Plain ''1''))])])
     [''r''] (Visit [''r'', ''a+b''] (Some (File True (Plain ''1''))) False) = Some ([''r'', ''a+b''], [''r'', ''a_PLUS_b''])"
    by code_simp
  then show ?thesis using candidate_target_valid [OF h] by simp
qed

text \<open>C18: every entry below the root that the walk visits without an error and whose name fails the skip test gets a pair.\<close>

theorem candidates_complete:
  "wf_fs fs \<Longrightarrow> v \<in> set (WalkDir fs root) \<Longrightarrow> \<not> v_err v \<Longrightarrow> v_path v \<noteq> root \<Longrightarrow>
     \<not> already_valid (last (v_path v)) \<Longrightarrow> \<exists>new. (v_path v, new) \<in> set (collect_candidates fs root)"
proof -
  assume wf: "wf_fs fs" and v: "v \<in> set (WalkDir fs root)" and e: "\<not> v_err v"
    and r: "v_path v \<noteq> root" and inv: "\<not> already_valid (last (v_path v))"
  have "last (v_path v) \<noteq> []" using WalkDir_names [OF wf v r] by (simp add: fs_name_def)
  then have "sanitizeName (last (v_path v)) \<noteq> last (v_path v)" using inv by (rule sanitize_changes)
  with e r inv obtain new where "rename_candidate fs root v = Some (v_path v, new)"
    by (simp add: rename_candidate_def Let_def)
  with v show ?thesis by (auto simp: collect_candidates_def in_set_map_filter)
qed

theorem candidates_complete_witness:
  "wf_fs (Dir True [(''r'', Dir True [(''a b'', File True (Plain ''one'')), (''a?b'', File True (Plain ''two'')),
                                 (''x'', File True (Plain ''3''))])]) \<and> Visit [''r'', ''a?b''] (Some (File True (Plain ''two''))) False \<in> set (WalkDir (Dir True [(''r'', Dir True [(''a b'', File True (Plain ''one'')), (''a?b'', File True (Plain ''two'')),
                                 (''x'', File True (Plain ''3''))])]) [''r'']) \<and>
   \<not> already_valid ''a?b'' \<and> (\<exists>new. ([''r'', ''a?b''], new) \<in> set (collect_candidates (Dir True [(''r'', Dir True [(''a b'', File True (Plain ''one'')), (''a?b'', File True (Plain ''two'')),
                                 (''x'', File True (Plain ''3''))])]) [''r'']))"
proof -
  have wf: "wf_fs (Dir True [(''r'', Dir True [(''a b'', File True (Plain ''one'')), (''a?b'', File True (Plain ''two'')),
                                 (''x'', File True (Plain ''3''))])])" by (simp add: fs_name_def)
  have v: "Visit [''r'', ''a?b''] (Some (File True (Plain ''two''))) False \<in> set (WalkDir (Dir True [(''r'', Dir True [(''a b'', File True (Plain ''one'')), (''a?b'', File True (Plain ''two'')),
                                 (''x'', File True (Plain ''3''))])]) [''r''])"
    by code_simp
  have a: "\<not> already_valid ''a?b''" by code_simp
  from candidates_complete [OF wf v] a wf v show ?thesis by simp
qed

text \<open>C21: the collision loop terminates, and within a bounded number of rounds: it returns
  the first candidate or the candidate with some suffix \<open>m\<close> at most the initial suffix
  plus the number of entries of the tree.\<close>

theorem resolve_collision_terminates:
  "resolve_collision fs path dir nameOnly ext n newPath = newPath \<or>
   (\<exists>m. n \<le> m \<and> m \<le> n + length (all_paths fs) \<and>
        resolve_collision fs path dir nameOnly ext n newPath = suffixed dir nameOnly ext m)"
  using resolve_collision_range [of fs path dir nameOnly ext n newPath]
    suffix_count_le [of n fs dir nameOnly ext]
  by (auto split: if_splits)

text \<open>C22: a dry run leaves the tree unchanged and reports every pair, in the order step 2 visits them, with the number of pairs.\<close>

theorem dry_run_only_reports:
  "main_rename True (root # rest) fs =
     ((case lookup fs root of
         Some (Dir _ _) \<Rightarrow>
           (if root = [] then InvalidFolder root
            else Finished True (length (collect_candidates fs root))
                   (map (\<lambda>(old, new). Planned old new) (rev (collect_candidates fs root))))
       | _ \<Rightarrow> InvalidFolder root), fs)"
  by (cases "root = []")
    (simp_all add: main_rename_empty_root main_rename_Cons apply_renames_dry split: option.splits node.splits)

text \<open>C23: the command line errors: the usage message exactly when no folder argument is given, \<open>Invalid folder\<close> exactly when the argument does not name a directory (or is \<open>/\<close>, trimmed to the empty string), and neither changes the tree.\<close>

theorem main_rename_errors:
  "(fst (main_rename dry args fs) = Usage \<longleftrightarrow> args = []) \<and>
   (fst (main_rename dry args fs) = InvalidFolder r \<longleftrightarrow>
      args \<noteq> [] \<and> r = hd args \<and> (r = [] \<or> (case lookup fs r of Some (Dir _ _) \<Rightarrow> False | _ \<Rightarrow> True))) \<and>
   (case fst (main_rename dry args fs) of Finished _ _ _ \<Rightarrow> True | _ \<Rightarrow> snd (main_rename dry args fs) = fs)"
proof (cases args)
  case (Cons root rest)
  then show ?thesis
    by (cases "root = []")
      (auto simp: main_rename_empty_root main_rename_Cons split: option.splits node.splits)
qed (simp add: main_rename_Nil)


text \<open>C25: an unreadable root is not fatal for the renamer: \<open>os.Stat\<close> accepts it,
  \<open>filepath.WalkDir\<close> reports the read error to the callback at the root itself, which
  prints it and returns \<open>nil\<close> (lines 52--55), so the run completes with no pair, no
  message of step 2 and an unchanged tree, whatever the directory holds.\<close>

theorem unreadable_root_not_fatal:
  assumes "root \<noteq> []" "lookup fs root = Some (Dir False cs)"
  shows "main_rename dry (root # rest) fs = (Finished dry 0 [], fs)"
proof -
  have "collect_candidates fs root = []"
    using assms(2) by (simp add: collect_candidates_def WalkDir_def rename_candidate_def map_filter_simps)
  then show ?thesis using assms by (simp add: main_rename_Cons)
qed

theorem unreadable_root_not_fatal_witness:
  "main_rename False [[''r'']] (Dir True [(''r'', Dir False [(''a b'', File True (Plain ''1''))])]) =
   (Finished False 0 [], Dir True [(''r'', Dir False [(''a b'', File True (Plain ''1''))])])"
  by (rule unreadable_root_not_fatal) simp_all

end
