(* ===== verification/Archiver.thy ===== *)
theory Archiver
  imports Walk GoStrings
begin

text \<open>
  The archiver (\<open>src/compress.go\<close>). \<open>main\<close> checks the root, reads its entries,
  creates the backup directory \<open><root>_original\<close>, turns every visible directory
  entry that holds a matching file into a \<open>Task\<close> (lines 58--73), and processes the
  tasks in order (lines 83--108): an existing valid zip is kept, an invalid one removed;
  then \<open>zipFolder\<close> writes the archive and the folder is moved into the backup
  directory. Every walk is \<open>filepath.Walk\<close> (theory \<open>Walk\<close>).

  The inclusion test \<open>filepath.Match(strings.ToLower(includePattern),
  strings.ToLower(filepath.Base(p)))\<close> is the parameter \<open>incl\<close> of every definition
  here, applied to the base name: both callers treat a malformed pattern as no match, so
  the test is a predicate on names, and the properties of this theory hold for every
  such predicate.
\<close>

text \<open>\<open>Task\<close> (lines 23--28).\<close>

record task =
  index :: nat
  folderName :: name
  subfolder :: path
  zipPath :: path

text \<open>\<open>isHidden\<close> (lines 113--115).\<close>

definition isHidden :: "name \<Rightarrow> bool" where
  "isHidden name \<longleftrightarrow> HasPrefix name ''.''"

text \<open>\<open>fileExists\<close> of \<open>compress.go\<close> (lines 117--120): \<open>os.Stat\<close> succeeds on
  something that is not a directory.\<close>

definition compress_fileExists :: "fs \<Rightarrow> path \<Rightarrow> bool" where
  "compress_fileExists fs p = (case os_stat fs p of Inr info \<Rightarrow> \<not> is_dir info | Inl _ \<Rightarrow> False)"

text \<open>The callback of \<open>isEmptyFolder\<close> (lines 124--133) over the visits of the walk:
  the first visit without error of a non-directory whose base name matches sets
  \<open>hasFiles\<close> and stops the walk with \<open>io.EOF\<close>.\<close>

fun walk_has_match :: "(name \<Rightarrow> bool) \<Rightarrow> visit list \<Rightarrow> bool" where
  "walk_has_match incl [] = False"
| "walk_has_match incl (v # vs) =
     (if \<not> v_err v \<and> (case v_info v of Some n \<Rightarrow> \<not> is_dir n | None \<Rightarrow> False) \<and> incl (last (v_path v))
      then True else walk_has_match incl vs)"

text \<open>\<open>isEmptyFolder\<close> (lines 122--135).\<close>

definition isEmptyFolder :: "(name \<Rightarrow> bool) \<Rightarrow> fs \<Rightarrow> path \<Rightarrow> bool" where
  "isEmptyFolder incl fs path \<longleftrightarrow> \<not> walk_has_match incl (Walk fs path)"

text \<open>The loop of \<open>isValidZip\<close> over \<open>r.File\<close> (lines 144--151).\<close>

fun first_entry_opens :: "zip_entry list \<Rightarrow> bool" where
  "first_entry_opens [] = False"
| "first_entry_opens (e # es) = (if ze_opens e then True else first_entry_opens es)"

text \<open>\<open>isValidZip\<close> (lines 137--152): \<open>zip.OpenReader\<close> succeeds on a readable file
  holding a zip container, and some entry opens.\<close>

definition isValidZip :: "fs \<Rightarrow> path \<Rightarrow> bool" where
  "isValidZip fs path =
     (case lookup fs path of Some (File r (Zip es)) \<Rightarrow> r \<and> first_entry_opens es | _ \<Rightarrow> False)"

text \<open>A relative path as a slash-separated string, and \<open>filepath.Rel(filepath.Dir(folderPath),
  path)\<close> for a path below \<open>folderPath\<close> (line 174).\<close>

fun join_path :: "path \<Rightarrow> string" where
  "join_path [] = []"
| "join_path [x] = x"
| "join_path (x # y # ys) = x @ ''/'' @ join_path (y # ys)"

definition rel_path :: "path \<Rightarrow> path \<Rightarrow> string" where
  "rel_path folderPath p = join_path (drop (length (butlast folderPath)) p)"

text \<open>The callback of \<open>zipFolder\<close> (lines 164--196) over the visits of the walk, with the
  entries written so far: an error of the walk or of \<open>os.Open\<close> stops it, a directory or
  a file that does not match is passed over, a matching file is copied into a new
  entry.\<close>

fun zip_walk :: "(name \<Rightarrow> bool) \<Rightarrow> path \<Rightarrow> visit list \<Rightarrow> zip_entry list \<Rightarrow> os_error option \<times> zip_entry list" where
  "zip_walk incl folderPath [] es = (None, es)"
| "zip_walk incl folderPath (v # vs) es =
     (case v_info v of
        None \<Rightarrow> (Some ENOENT, es)
      | Some (Dir _ _) \<Rightarrow> (if v_err v then (Some EACCES, es) else zip_walk incl folderPath vs es)
      | Some (File r d) \<Rightarrow>
          (if \<not> incl (last (v_path v)) then zip_walk incl folderPath vs es
           else if \<not> r then (Some EACCES, es)
           else zip_walk incl folderPath vs (es @ [Entry (rel_path folderPath (v_path v)) d True])))"

text \<open>\<open>zipFolder\<close> (lines 154--197): \<open>os.Create\<close>, the walk, and the deferred
  \<open>zipWriter.Close\<close>, which writes the entries copied so far whether or not the walk
  failed.\<close>

definition zipFolder :: "(name \<Rightarrow> bool) \<Rightarrow> fs \<Rightarrow> path \<Rightarrow> path \<Rightarrow> os_error option \<times> fs" where
  "zipFolder incl fs folderPath zp =
     (case os_write_file fs zp (Zip []) of
        Inl e \<Rightarrow> (Some e, fs)
      | Inr fs1 \<Rightarrow>
          (case zip_walk incl folderPath (Walk fs1 folderPath) [] of
             (err, es) \<Rightarrow> (err, update_at zp (Some (File True (Zip es))) fs1)))"

text \<open>The loop preparing the tasks (lines 59--73).\<close>

fun prepare_tasks :: "(name \<Rightarrow> bool) \<Rightarrow> fs \<Rightarrow> path \<Rightarrow> (name \<times> node) list \<Rightarrow> task list \<Rightarrow> task list" where
  "prepare_tasks incl fs root [] tasks = tasks"
| "prepare_tasks incl fs root ((k, n) # entries) tasks =
     prepare_tasks incl fs root entries
       (if is_dir n \<and> \<not> isHidden k \<and> \<not> isEmptyFolder incl fs (root @ [k])
        then tasks @ [\<lparr>index = length tasks + 1, folderName = k, subfolder = root @ [k],
                       zipPath = root @ [k @ ''.zip'']\<rparr>]
        else tasks)"

text \<open>\<open>originalDir := root + "_original"\<close> (line 51), a sibling of the root.\<close>

definition original_dir :: "path \<Rightarrow> path" where
  "original_dir root = butlast root @ [last root @ ''_original'']"

text \<open>What the processing loop prints: the progress line, the two zip checks, and the
  two per-folder errors.\<close>

datatype compress_msg =
  Checking nat nat name | ValidZipSkipped | InvalidZip | ZipError os_error | MoveFailed os_error

text \<open>The check of an existing zip (lines 86--94): \<open>None\<close> when a valid zip exists and
  the task is skipped, otherwise the tree to continue with (an invalid zip removed; the
  error of \<open>os.Remove\<close> is ignored, as in the code) and the message printed.\<close>

definition check_existing_zip :: "fs \<Rightarrow> path \<Rightarrow> (fs \<times> compress_msg list) option" where
  "check_existing_zip fs zp =
     (if compress_fileExists fs zp then
        (if isValidZip fs zp then None
         else Some ((case os_remove fs zp of Inr fs' \<Rightarrow> fs' | Inl _ \<Rightarrow> fs), [InvalidZip]))
      else Some (fs, []))"

text \<open>One iteration of the processing loop (lines 84--107), for the task at position
  \<open>i\<close> of \<open>total\<close>.\<close>

definition process_task ::
  "(name \<Rightarrow> bool) \<Rightarrow> path \<Rightarrow> nat \<Rightarrow> nat \<Rightarrow> fs \<Rightarrow> task \<Rightarrow> fs \<times> compress_msg list" where
  "process_task incl originalDir total_n i fs t =
     (let m0 = Checking (Suc i) total_n (folderName t) in
      case check_existing_zip fs (zipPath t) of
        None \<Rightarrow> (fs, [m0, ValidZipSkipped])
      | Some (fs1, m1) \<Rightarrow>
          (case zipFolder incl fs1 (subfolder t) (zipPath t) of
             (Some e, fs2) \<Rightarrow> (fs2, m0 # m1 @ [ZipError e])
           | (None, fs2) \<Rightarrow>
               (case os_rename fs2 (subfolder t) (originalDir @ [folderName t]) of
                  Inl e \<Rightarrow> (fs2, m0 # m1 @ [MoveFailed e])
                | Inr fs3 \<Rightarrow> (fs3, m0 # m1))))"

text \<open>The processing loop (lines 83--108).\<close>

fun process_tasks ::
  "(name \<Rightarrow> bool) \<Rightarrow> path \<Rightarrow> nat \<Rightarrow> nat \<Rightarrow> fs \<Rightarrow> task list \<Rightarrow> fs \<times> compress_msg list" where
  "process_tasks incl originalDir total_n i fs [] = (fs, [])"
| "process_tasks incl originalDir total_n i fs (t # ts) =
     (case process_task incl originalDir total_n i fs t of
        (fs1, ms1) \<Rightarrow>
          (case process_tasks incl originalDir total_n (Suc i) fs1 ts of (fs2, ms2) \<Rightarrow> (fs2, ms1 @ ms2)))"

text \<open>How \<open>main\<close> ends. All of them return normally (exit status 0).\<close>

datatype compress_outcome =
  NoArgs | BadFolder path | ReadDirFailed os_error | MkdirFailed os_error | NoFolders
  | AllDone nat "compress_msg list"

text \<open>\<open>main\<close> (lines 30--111), from the positional arguments, each resolved to a path
  of the tree. The path \<open>[]\<close> is the argument \<open>/\<close>, which \<open>strings.TrimSuffix\<close>
  turns into the empty string that \<open>os.Stat\<close> rejects.\<close>

definition main_compress :: "(name \<Rightarrow> bool) \<Rightarrow> path list \<Rightarrow> fs \<Rightarrow> compress_outcome \<times> fs" where
  "main_compress incl args fs =
     (case args of
        [] \<Rightarrow> (NoArgs, fs)
      | root # _ \<Rightarrow>
          (if root = [] then (BadFolder root, fs)
           else
             (case os_stat fs root of
                Inl _ \<Rightarrow> (BadFolder root, fs)
              | Inr info \<Rightarrow>
                  (if \<not> is_dir info then (BadFolder root, fs)
                   else
                     (case os_readdir fs root of
                        Inl e \<Rightarrow> (ReadDirFailed e, fs)
                      | Inr entries \<Rightarrow>
                          (case os_mkdirall fs (original_dir root) of
                             Inl e \<Rightarrow> (MkdirFailed e, fs)
                           | Inr fs1 \<Rightarrow>
                               (let tasks = prepare_tasks incl fs1 root entries [] in
                                if tasks = [] then (NoFolders, fs1)
                                else
                                  (case process_tasks incl (original_dir root) (length tasks) 0 fs1 tasks of
                                     (fs2, ms) \<Rightarrow> (AllDone (length tasks) ms, fs2)))))))))"

text \<open>Reference definitions for the properties. \<open>has_match incl k n\<close>: the node
  \<open>n\<close> named \<open>k\<close> is a matching file or a readable directory with an entry that has a
  match; \<open>spec_has_match\<close> is the specification's emptiness test, which ignores
  readability. \<open>tree_files\<close> lists the files of a tree in walk order, and
  \<open>archive_entries\<close> the entries the specification asks of the archive of a folder.\<close>

function has_match :: "(name \<Rightarrow> bool) \<Rightarrow> name \<Rightarrow> node \<Rightarrow> bool" where
  "has_match incl k (File r d) = incl k"
| "has_match incl k (Dir r cs) = (r \<and> (\<exists>(k', c) \<in> set cs. has_match incl k' c))"
  by pat_completeness auto
termination
  by (relation "measure (\<lambda>(incl, k, n). size n)") (auto simp: size_list_pair_elem)

function spec_has_match :: "(name \<Rightarrow> bool) \<Rightarrow> name \<Rightarrow> node \<Rightarrow> bool" where
  "spec_has_match incl k (File r d) = incl k"
| "spec_has_match incl k (Dir r cs) = (\<exists>(k', c) \<in> set cs. spec_has_match incl k' c)"
  by pat_completeness auto
termination
  by (relation "measure (\<lambda>(incl, k, n). size n)") (auto simp: size_list_pair_elem)

function all_readable :: "node \<Rightarrow> bool" where
  "all_readable (File r d) = r"
| "all_readable (Dir r cs) = (r \<and> (\<forall>(k, c) \<in> set cs. all_readable c))"
  by pat_completeness auto
termination
  by (relation "measure size") (auto simp: size_list_pair_elem)

function tree_files :: "path \<Rightarrow> node \<Rightarrow> (path \<times> fdata) list" where
  "tree_files p (File r d) = [(p, d)]"
| "tree_files p (Dir r cs) = concat (map (\<lambda>(k, c). tree_files (p @ [k]) c) (sort_key fst cs))"
  by pat_completeness auto
termination
  by (relation "measure (\<lambda>(p, n). size n)") (auto simp: size_list_pair_elem)

definition archive_entries :: "(name \<Rightarrow> bool) \<Rightarrow> path \<Rightarrow> node \<Rightarrow> zip_entry list" where
  "archive_entries incl folderPath n =
     map (\<lambda>(q, d). Entry (rel_path folderPath q) d True)
       (filter (\<lambda>(q, d). incl (last q)) (tree_files folderPath n))"

text \<open>The task the loop of lines 59--73 creates for the entry \<open>k\<close> at position \<open>i\<close>.\<close>

definition task_of :: "path \<Rightarrow> nat \<Rightarrow> name \<Rightarrow> task" where
  "task_of root i k = \<lparr>index = i, folderName = k, subfolder = root @ [k], zipPath = root @ [k @ ''.zip'']\<rparr>"

subsection \<open>Emptiness, validity and tasks\<close>

lemma walk_has_match_iff:
  "walk_has_match incl vs \<longleftrightarrow>
     (\<exists>v \<in> set vs. \<not> v_err v \<and> (case v_info v of Some n \<Rightarrow> \<not> is_dir n | None \<Rightarrow> False) \<and> incl (last (v_path v)))"
  by (induction vs) auto

lemma walk_from_has_match: "walk_has_match incl (walk_from p n) \<longleftrightarrow> has_match incl (last p) n"
proof (induction p n rule: walk_from.induct)
  case (1 p r d)
  then show ?case by simp
next
  case (2 p r cs)
  have "walk_has_match incl (walk_from p (Dir r cs)) \<longleftrightarrow>
        r \<and> (\<exists>(k, c) \<in> set (sort_key fst cs). walk_has_match incl (walk_from (p @ [k]) c))"
    by (auto simp: walk_has_match_iff)
  also have "\<dots> \<longleftrightarrow> r \<and> (\<exists>(k, c) \<in> set cs. has_match incl k c)"
    using "2.IH" by fastforce
  finally show ?case by simp
qed

lemma isEmptyFolder_iff:
  "isEmptyFolder incl fs p \<longleftrightarrow> (case lookup fs p of None \<Rightarrow> True | Some n \<Rightarrow> \<not> has_match incl (last p) n)"
  by (simp add: isEmptyFolder_def Walk_def walk_from_has_match split: option.splits)

lemma has_match_spec: "all_readable n \<Longrightarrow> has_match incl k n \<longleftrightarrow> spec_has_match incl k n"
proof (induction incl k n rule: has_match.induct)
  case (2 incl k r cs)
  then show ?case by (fastforce simp: list_all_iff)
qed simp



lemma prepare_tasks_eq:
  "prepare_tasks incl fs root entries ts =
     ts @ map (\<lambda>(i, k). task_of root i k)
       (enumerate (Suc (length ts))
          (map fst (filter (\<lambda>(k, n). is_dir n \<and> \<not> isHidden k \<and> \<not> isEmptyFolder incl fs (root @ [k])) entries)))"
proof (induction entries arbitrary: ts)
  case (Cons e entries)
  obtain k n where e: "e = (k, n)" by (cases e)
  show ?case
  proof (cases "is_dir n \<and> \<not> isHidden k \<and> \<not> isEmptyFolder incl fs (root @ [k])")
    case True
    then have eq: "prepare_tasks incl fs root (e # entries) ts =
               prepare_tasks incl fs root entries (ts @ [task_of root (Suc (length ts)) k])"
      by (simp add: e task_of_def)
    show ?thesis
      unfolding eq Cons.IH [of "ts @ [task_of root (Suc (length ts)) k]"] using True by (simp add: e)
  next
    case False
    then have eq: "prepare_tasks incl fs root (e # entries) ts = prepare_tasks incl fs root entries ts"
      by (auto simp: e)
    show ?thesis unfolding eq Cons.IH [of ts] using False by (auto simp: e)
  qed
qed simp

subsection \<open>Zip archives and frames\<close>

lemma zip_walk_append:
  "zip_walk incl f (xs @ ys) es =
     (case zip_walk incl f xs es of (None, es') \<Rightarrow> zip_walk incl f ys es' | (Some e, es') \<Rightarrow> (Some e, es'))"
  by (induction incl f xs es rule: zip_walk.induct) (auto split: option.splits node.splits prod.splits)

lemma zip_walk_readable:
  "all_readable n \<Longrightarrow>
     zip_walk incl f (walk_from p n) es =
       (None, es @ map (\<lambda>(q, d). Entry (rel_path f q) d True) (filter (\<lambda>(q, d). incl (last q)) (tree_files p n)))"
proof (induction p n arbitrary: es rule: walk_from.induct)
  case (1 p r d)
  then show ?case by auto
next
  case (2 p r cs)
  let ?E = "\<lambda>q n. map (\<lambda>(q, d). Entry (rel_path f q) d True) (filter (\<lambda>(q, d). incl (last q)) (tree_files q n))"
  from "2.prems" have r: r and ch: "\<forall>(k, c) \<in> set cs. all_readable c" by auto
  have blocks: "set xs \<subseteq> set (sort_key fst cs) \<Longrightarrow>
      zip_walk incl f (concat (map (\<lambda>(k, c). walk_from (p @ [k]) c) xs)) es =
        (None, es @ concat (map (\<lambda>(k, c). ?E (p @ [k]) c) xs))" for xs es
  proof (induction xs arbitrary: es)
    case (Cons kc xs)
    obtain k c where kc: "kc = (k, c)" by (cases kc)
    with Cons.prems have mem: "(k, c) \<in> set (sort_key fst cs)" by simp
    with ch have "all_readable c" by auto
    with "2.IH" [OF r mem refl] have "zip_walk incl f (walk_from (p @ [k]) c) es = (None, es @ ?E (p @ [k]) c)"
      by blast
    with Cons.IH [of "es @ ?E (p @ [k]) c"] Cons.prems show ?case by (simp add: kc zip_walk_append)
  qed simp
  have "zip_walk incl f (walk_from p (Dir r cs)) es =
        zip_walk incl f (concat (map (\<lambda>(k, c). walk_from (p @ [k]) c) (sort_key fst cs))) es"
    using r by simp
  also have "\<dots> = (None, es @ concat (map (\<lambda>(k, c). ?E (p @ [k]) c) (sort_key fst cs)))"
    by (rule blocks) simp
  also have "\<dots> = (None, es @ ?E p (Dir r cs))"
    by (simp add: filter_concat map_concat comp_def case_prod_unfold)
  finally show ?case .
qed



lemma has_match_imp_spec: "has_match incl k n \<Longrightarrow> spec_has_match incl k n"
  by (induction incl k n rule: has_match.induct) fastforce+

lemma zipFolder_frame:
  "zipFolder incl fs f zp = (e, fs') \<Longrightarrow> parallel zp q \<Longrightarrow> lookup fs' q = lookup fs q"
  by (auto simp: zipFolder_def lookup_update_at_parallel dest: lookup_os_write_file_other
      split: sum.splits prod.splits)

lemma zipFolder_readable:
  "lookup fs folder = Some n \<Longrightarrow> all_readable n \<Longrightarrow> parallel zp folder \<Longrightarrow>
   os_write_file fs zp (Zip []) = Inr fs1 \<Longrightarrow>
     zipFolder incl fs folder zp = (None, update_at zp (Some (File True (Zip (archive_entries incl folder n)))) fs1)"
proof -
  assume l: "lookup fs folder = Some n" and a: "all_readable n" and p: "parallel zp folder"
    and w: "os_write_file fs zp (Zip []) = Inr fs1"
  from lookup_os_write_file_other [OF w p] l have "Walk fs1 folder = walk_from folder n"
    by (simp add: Walk_def)
  with zip_walk_readable [OF a, of incl folder folder "[]"] w show ?thesis
    by (simp add: zipFolder_def archive_entries_def)
qed

lemma check_existing_zip_frame:
  "check_existing_zip fs zp = Some (fs1, m1) \<Longrightarrow> parallel zp q \<Longrightarrow> lookup fs1 q = lookup fs q"
  by (auto simp: check_existing_zip_def dest: lookup_os_remove_other split: if_splits sum.splits)

lemma process_task_frame:
  "parallel (zipPath t) q \<Longrightarrow> parallel (subfolder t) q \<Longrightarrow> parallel (originalDir @ [folderName t]) q \<Longrightarrow>
     lookup (fst (process_task incl originalDir total_n i fs t)) q = lookup fs q"
proof (cases "check_existing_zip fs (zipPath t)")
  case None
  then show ?thesis by (simp add: process_task_def Let_def)
next
  case (Some c)
  assume pz: "parallel (zipPath t) q" and ps: "parallel (subfolder t) q"
    and po: "parallel (originalDir @ [folderName t]) q"
  obtain fs1 m1 where c: "c = (fs1, m1)" by (cases c)
  obtain e fs2 where z: "zipFolder incl fs1 (subfolder t) (zipPath t) = (e, fs2)"
    by (cases "zipFolder incl fs1 (subfolder t) (zipPath t)")
  have l2: "lookup fs2 q = lookup fs q"
    using check_existing_zip_frame [OF Some [unfolded c] pz] zipFolder_frame [OF z pz] by simp
  show ?thesis
  proof (cases e)
    case None
    show ?thesis
    proof (cases "os_rename fs2 (subfolder t) (originalDir @ [folderName t])")
      case (Inl err)
      with Some c z None l2 show ?thesis by (simp add: process_task_def Let_def)
    next
      case (Inr fs3)
      with Some c z None l2 lookup_os_rename_other [OF Inr ps po] show ?thesis
        by (simp add: process_task_def Let_def)
    qed
  next
    case (Some err)
    with \<open>check_existing_zip fs (zipPath t) = Some c\<close> c z l2 show ?thesis
      by (simp add: process_task_def Let_def)
  qed
qed

lemma parallel_original_dir:
  "root \<noteq> [] \<Longrightarrow> parallel (original_dir root @ xs) (root @ ys)"
proof -
  assume "root \<noteq> []"
  then obtain b x where root: "root = b @ [x]" by (cases root rule: rev_cases) auto
  have "x @ ''_original'' \<noteq> x" by simp
  then show ?thesis by (auto simp: parallel_def original_dir_def root)
qed

lemma check_existing_zip_ready:
  assumes "\<not> isValidZip fs zp" "\<not> (\<exists>r cs. lookup fs zp = Some (Dir r cs))"
    "lookup fs (butlast zp) = Some (Dir r cs)" "zp \<noteq> []"
  shows "\<exists>fs1 m1 r1 cs1. check_existing_zip fs zp = Some (fs1, m1) \<and> lookup fs1 zp = None \<and>
           lookup fs1 (butlast zp) = Some (Dir r1 cs1) \<and> (\<forall>q. parallel zp q \<longrightarrow> lookup fs1 q = lookup fs q) \<and>
           (m1 = [] \<or> m1 = [InvalidZip])"
proof (cases "lookup fs zp")
  case None
  then show ?thesis using assms
    by (auto simp: check_existing_zip_def compress_fileExists_def os_stat_def)
next
  case (Some n)
  with assms obtain rf d where f: "lookup fs zp = Some (File rf d)" by (cases n) auto
  then have "check_existing_zip fs zp = Some (update_at zp None fs, [InvalidZip])"
    using assms(1) by (simp add: check_existing_zip_def compress_fileExists_def os_stat_def os_remove_def)
  moreover have "lookup (update_at zp None fs) zp = None"
    using lookup_update_at_self [OF assms(3,4)] by simp
  moreover have "lookup (update_at zp None fs) (butlast zp) = Some (Dir r (set_child cs (last zp) None))"
    by (rule lookup_update_at_parent [OF assms(3,4)])
  ultimately show ?thesis by (auto simp: lookup_update_at_parallel)
qed

lemma zipFolder_fresh:
  assumes "lookup fs zp = None" "lookup fs (butlast zp) = Some (Dir r cs)" "zp \<noteq> []"
    "lookup fs folder = Some n" "all_readable n" "parallel zp folder"
  shows "\<exists>fs2 r2 cs2. zipFolder incl fs folder zp = (None, fs2) \<and>
           lookup fs2 zp = Some (File True (Zip (archive_entries incl folder n))) \<and>
           lookup fs2 (butlast zp) = Some (Dir r2 cs2) \<and> (\<forall>q. parallel zp q \<longrightarrow> lookup fs2 q = lookup fs q)"
proof -
  let ?fs1 = "update_at zp (Some (File True (Zip []))) fs"
  have w: "os_write_file fs zp (Zip []) = Inr ?fs1" using assms(1-3) by (simp add: os_write_file_def)
  have par1: "lookup ?fs1 (butlast zp) = Some (Dir r (set_child cs (last zp) (Some (File True (Zip [])))))"
    by (rule lookup_update_at_parent [OF assms(2,3)])
  let ?fs2 = "update_at zp (Some (File True (Zip (archive_entries incl folder n)))) ?fs1"
  have "zipFolder incl fs folder zp = (None, ?fs2)" by (rule zipFolder_readable [OF assms(4-6) w])
  moreover have "lookup ?fs2 zp = Some (File True (Zip (archive_entries incl folder n)))"
    using lookup_update_at_self [OF par1 assms(3)] by simp
  moreover note lookup_update_at_parent [OF par1 assms(3)]
  ultimately show ?thesis by (auto simp: lookup_update_at_parallel)
qed

lemma process_task_zip_dir:
  "lookup fs (zipPath t) = Some (Dir r cs) \<Longrightarrow> fst (process_task incl originalDir total_n i fs t) = fs"
  by (simp add: process_task_def check_existing_zip_def compress_fileExists_def os_stat_def zipFolder_def
      os_write_file_def)

lemma fst_process_tasks_Cons:
  "fst (process_tasks incl originalDir total_n i fs (t # ts)) =
     fst (process_tasks incl originalDir total_n (Suc i) (fst (process_task incl originalDir total_n i fs t)) ts)"
  by (simp split: prod.splits)

lemma process_tasks_keep:
  "\<forall>t \<in> set ts. parallel (subfolder t) q \<and> parallel (originalDir @ [folderName t]) q \<and>
      (parallel (zipPath t) q \<or> (zipPath t = q \<and> (\<exists>r cs. lookup fs q = Some (Dir r cs)))) \<Longrightarrow>
   lookup (fst (process_tasks incl originalDir total_n i fs ts)) q = lookup fs q"
proof (induction ts arbitrary: i fs)
  case (Cons t ts)
  let ?fs1 = "fst (process_task incl originalDir total_n i fs t)"
  have l1: "lookup ?fs1 q = lookup fs q"
    using Cons.prems process_task_frame [of t q originalDir incl total_n i fs] process_task_zip_dir by auto
  then have "\<forall>t \<in> set ts. parallel (subfolder t) q \<and> parallel (originalDir @ [folderName t]) q \<and>
      (parallel (zipPath t) q \<or> (zipPath t = q \<and> (\<exists>r cs. lookup ?fs1 q = Some (Dir r cs))))"
    using Cons.prems by simp
  from Cons.IH [OF this] l1 show ?case by (simp only: fst_process_tasks_Cons)
qed simp

lemma main_compress_Cons:
  "root \<noteq> [] \<Longrightarrow> main_compress incl (root # rest) fs =
     (case lookup fs root of
        Some (Dir r cs) \<Rightarrow>
          (if \<not> r then (ReadDirFailed EACCES, fs)
           else
             (case os_mkdirall fs (original_dir root) of
                Inl e \<Rightarrow> (MkdirFailed e, fs)
              | Inr fs1 \<Rightarrow>
                  (if prepare_tasks incl fs1 root (sort_key fst cs) [] = [] then (NoFolders, fs1)
                   else
                     (AllDone (length (prepare_tasks incl fs1 root (sort_key fst cs) []))
                        (snd (process_tasks incl (original_dir root)
                           (length (prepare_tasks incl fs1 root (sort_key fst cs) [])) 0 fs1
                           (prepare_tasks incl fs1 root (sort_key fst cs) []))),
                      fst (process_tasks incl (original_dir root)
                           (length (prepare_tasks incl fs1 root (sort_key fst cs) [])) 0 fs1
                           (prepare_tasks incl fs1 root (sort_key fst cs) []))))))
      | _ \<Rightarrow> (BadFolder root, fs))"
  by (auto simp: main_compress_def os_stat_def os_readdir_def Let_def prod.case_eq_if
      split: option.splits node.splits sum.splits)

lemma mkdir_original_dir:
  assumes "root \<noteq> []" "lookup fs root = Some (Dir r cs)" "os_mkdirall fs (original_dir root) = Inr fs1"
  shows "(\<forall>ys. lookup fs1 (root @ ys) = lookup fs (root @ ys)) \<and>
         (\<forall>k. lookup fs1 (original_dir root @ [k]) = lookup fs (original_dir root @ [k])) \<and>
         (\<exists>r' cs'. lookup fs1 (original_dir root) = Some (Dir r' cs'))"
proof -
  obtain b x where root: "root = b @ [x]" using assms(1) by (cases root rule: rev_cases) auto
  from lookup_snoc_Some [of fs b x] assms(2) root obtain rb cb where pb: "lookup fs b = Some (Dir rb cb)"
    by auto
  have od: "original_dir root \<noteq> []" "butlast (original_dir root) = b" by (simp_all add: original_dir_def root)
  note mk = os_mkdirall_parent [of fs "original_dir root", unfolded od(2), OF pb od(1)]
  show ?thesis
  proof (cases "lookup fs (original_dir root)")
    case None
    with mk assms(3) have fs1: "fs1 = update_at (original_dir root) (Some (Dir True [])) fs" by simp
    have "lookup fs (original_dir root @ [k]) = None" for k using None by (simp add: lookup_snoc)
    moreover have "lookup fs1 (original_dir root @ [k]) = None" for k
      using lookup_update_at_below [of fs "original_dir root" rb cb "Some (Dir True [])" "[k]"] pb od
      by (simp add: fs1)
    moreover have "lookup fs1 (original_dir root) = Some (Dir True [])"
      using lookup_update_at_self [of fs "original_dir root" rb cb] pb od by (simp add: fs1)
    moreover have "lookup fs1 (root @ ys) = lookup fs (root @ ys)" for ys
      using parallel_original_dir [OF assms(1), of "[]" ys] by (simp add: fs1 lookup_update_at_parallel)
    ultimately show ?thesis by auto
  next
    case (Some n)
    with mk assms(3) show ?thesis by (cases n) auto
  qed
qed

lemma in_prepare_tasks:
  "t \<in> set (prepare_tasks incl fs root es []) \<Longrightarrow>
     \<exists>i k n. t = task_of root i k \<and> (k, n) \<in> set es \<and> is_dir n \<and> \<not> isHidden k \<and>
       \<not> isEmptyFolder incl fs (root @ [k])"
proof -
  let ?P = "\<lambda>(k, n). is_dir n \<and> \<not> isHidden k \<and> \<not> isEmptyFolder incl fs (root @ [k])"
  assume "t \<in> set (prepare_tasks incl fs root es [])"
  then obtain i k where t: "t = task_of root i k" and ik: "(i, k) \<in> set (enumerate 1 (map fst (filter ?P es)))"
    by (auto simp: prepare_tasks_eq)
  from ik have "k \<in> set (map fst (filter ?P es))" by (auto simp: enumerate_eq_zip dest: set_zip_rightD)
  then obtain n where "(k, n) \<in> set es" "is_dir n" "\<not> isHidden k" "\<not> isEmptyFolder incl fs (root @ [k])"
    by auto
  with t show ?thesis by blast
qed

lemma isEmptyFolder_lookup:
  "lookup fs' p = lookup fs p \<Longrightarrow> isEmptyFolder incl fs' p = isEmptyFolder incl fs p"
  by (simp add: isEmptyFolder_def Walk_def)

subsection \<open>Properties of the archiver\<close>

text \<open>C2: processing the task of a fully readable folder whose zip path is free or holds an invalid zip writes the archive of exactly the matching files of the folder, under names relative to the root, and moves the folder into the backup directory.\<close>

theorem task_archived_and_moved:
  assumes root: "root \<noteq> []" and sub: "lookup fs (root @ [k]) = Some (Dir r cs)" and rd: "all_readable (Dir r cs)"
    and zip: "\<not> isValidZip fs (root @ [k @ ''.zip''])" "\<not> (\<exists>r' cs'. lookup fs (root @ [k @ ''.zip'']) = Some (Dir r' cs'))"
    and od: "lookup fs (original_dir root) = Some (Dir ro co)" "lookup fs (original_dir root @ [k]) = None"
    and run: "process_task incl (original_dir root) total_n i fs (task_of root j k) = (fs', ms)"
  shows "lookup fs' (root @ [k @ ''.zip'']) = Some (File True (Zip (archive_entries incl (root @ [k]) (Dir r cs)))) \<and>
         lookup fs' (original_dir root @ [k]) = Some (Dir r cs) \<and> lookup fs' (root @ [k]) = None \<and>
         (ms = [Checking (Suc i) total_n k] \<or> ms = [Checking (Suc i) total_n k, InvalidZip])"
proof -
  let ?zp = "root @ [k @ ''.zip'']" and ?sub = "root @ [k]" and ?new = "original_dir root @ [k]"
  have pz: "parallel ?zp ?sub" by simp
  have po: "parallel ?new ?sub" "parallel ?new ?zp" "parallel (original_dir root) ?sub"
    "parallel (original_dir root) ?zp"
    using parallel_original_dir [OF root, of "[k]"] parallel_original_dir [OF root, of "[]"] by auto
  from lookup_snoc_Some [OF sub] obtain r0 c0 where "lookup fs root = Some (Dir r0 c0)" by blast
  then obtain fs1 m1 r1 c1 where c: "check_existing_zip fs ?zp = Some (fs1, m1)" and z1: "lookup fs1 ?zp = None"
    and p1: "lookup fs1 (butlast ?zp) = Some (Dir r1 c1)" and f1: "\<forall>q. parallel ?zp q \<longrightarrow> lookup fs1 q = lookup fs q"
    and m1: "m1 = [] \<or> m1 = [InvalidZip]"
    using check_existing_zip_ready [OF zip, of r0 c0] by auto
  have s1: "lookup fs1 ?sub = Some (Dir r cs)" using f1 pz sub by simp
  obtain fs2 r2 c2 where zf: "zipFolder incl fs1 ?sub ?zp = (None, fs2)"
    and z2: "lookup fs2 ?zp = Some (File True (Zip (archive_entries incl ?sub (Dir r cs))))"
    and f2: "\<forall>q. parallel ?zp q \<longrightarrow> lookup fs2 q = lookup fs1 q"
    using zipFolder_fresh [OF z1 p1 _ s1 rd pz] by auto
  have "lookup fs2 ?sub = Some (Dir r cs)" using f2 pz s1 by simp
  moreover have "lookup fs2 ?new = None" "lookup fs2 (butlast ?new) = Some (Dir ro co)"
    using f2 f1 po od by (auto dest: parallel_sym)
  ultimately obtain fs3 where mv: "os_rename fs2 ?sub ?new = Inr fs3" and n3: "lookup fs3 ?new = Some (Dir r cs)"
    and s3: "lookup fs3 ?sub = None" and f3: "\<forall>q. parallel ?sub q \<longrightarrow> parallel ?new q \<longrightarrow> lookup fs3 q = lookup fs2 q"
    using os_rename_move [of fs2 ?sub "Dir r cs" ?new ro co] po by (auto dest: parallel_sym)
  have "process_task incl (original_dir root) total_n i fs (task_of root j k) = (fs3, Checking (Suc i) total_n k # m1)"
    using c zf mv by (simp add: process_task_def task_of_def)
  with run have "fs' = fs3" "ms = Checking (Suc i) total_n k # m1" by simp_all
  moreover have "lookup fs3 ?zp = lookup fs2 ?zp" using f3 pz po by (auto dest: parallel_sym)
  ultimately show ?thesis using z2 n3 s3 m1 by auto
qed

theorem task_archived_and_moved_witness:
  "lookup (fst (process_task (\<lambda>n. True) (original_dir [''root'']) 1 0
      (Dir True [(''root'', Dir True [(''A'', Dir True [(''x.d'', File True (Plain ''1''))])]),
                 (''root_original'', Dir True [])])
      (task_of [''root''] 1 ''A''))) [''root'', ''A.zip''] =
     Some (File True (Zip [Entry ''A/x.d'' (Plain ''1'') True]))"
proof -
  let ?fs = "Dir True [(''root'', Dir True [(''A'', Dir True [(''x.d'', File True (Plain ''1''))])]),
                       (''root_original'', Dir True [])]"
  have h: "[''root''] \<noteq> []" "lookup ?fs ([''root''] @ [''A'']) = Some (Dir True [(''x.d'', File True (Plain ''1''))])"
    "all_readable (Dir True [(''x.d'', File True (Plain ''1''))])"
    "\<not> isValidZip ?fs ([''root''] @ [''A'' @ ''.zip''])"
    "\<not> (\<exists>r' cs'. lookup ?fs ([''root''] @ [''A'' @ ''.zip'']) = Some (Dir r' cs'))"
    "lookup ?fs (original_dir [''root'']) = Some (Dir True [])"
    "lookup ?fs (original_dir [''root''] @ [''A'']) = None"
    by (simp_all add: isValidZip_def original_dir_def)
  obtain fs' ms where run: "process_task (\<lambda>n. True) (original_dir [''root'']) 1 0 ?fs (task_of [''root''] 1 ''A'') = (fs', ms)"
    by (cases "process_task (\<lambda>n. True) (original_dir [''root'']) 1 0 ?fs (task_of [''root''] 1 ''A'')")
  from task_archived_and_moved [OF h run] run show ?thesis
    by (simp add: archive_entries_def rel_path_def)
qed

text \<open>C4: a hidden folder, or one without a matching file, is left as it is by a run of the archiver, and nothing is moved to its place in the backup directory.\<close>

theorem skipped_folders_untouched:
  assumes k: "lookup fs (root @ [k]) = Some n" "is_dir n" and skip: "isHidden k \<or> isEmptyFolder incl fs (root @ [k])"
  shows "lookup (snd (main_compress incl (root # rest) fs)) (root @ [k]) = Some n \<and>
         lookup (snd (main_compress incl (root # rest) fs)) (original_dir root @ [k]) =
           lookup fs (original_dir root @ [k])"
proof (cases "root = []")
  case True
  then show ?thesis using k by (simp add: main_compress_def)
next
  case False
  from lookup_snoc_Some [OF k(1)] obtain r cs where rt: "lookup fs root = Some (Dir r cs)" by blast
  show ?thesis
  proof (cases "r \<and> (\<exists>fs1. os_mkdirall fs (original_dir root) = Inr fs1)")
    case True
    then obtain fs1 where r: r and mk: "os_mkdirall fs (original_dir root) = Inr fs1" by blast
    note m = mkdir_original_dir [OF False rt mk]
    let ?ts = "prepare_tasks incl fs1 root (sort_key fst cs) []"
    have k1: "lookup fs1 (root @ [k]) = Some n" using m k by simp
    have "\<not> isEmptyFolder incl fs1 (root @ [j]) \<Longrightarrow> \<not> isHidden j \<Longrightarrow> j \<noteq> k" for j
      using skip isEmptyFolder_lookup [of fs1 "root @ [k]" fs incl] m by auto
    then have names: "t \<in> set ?ts \<Longrightarrow> \<exists>i j. t = task_of root i j \<and> j \<noteq> k" for t
      by (fastforce dest: in_prepare_tasks)
    have keep: "lookup (fst (process_tasks incl (original_dir root) (length ?ts) 0 fs1 ?ts)) q = lookup fs1 q"
      if "q = root @ [k] \<or> q = original_dir root @ [k]" for q
    proof (rule process_tasks_keep, intro ballI)
      fix t assume "t \<in> set ?ts"
      then obtain i j where t: "t = task_of root i j" and jk: "j \<noteq> k" using names by blast
      show "parallel (subfolder t) q \<and> parallel (original_dir root @ [folderName t]) q \<and>
            (parallel (zipPath t) q \<or> (zipPath t = q \<and> (\<exists>r cs. lookup fs1 q = Some (Dir r cs))))"
        using that jk k1 k(2) parallel_original_dir [OF False] parallel_sym
        by (cases n) (auto simp: t task_of_def)
    qed
    show ?thesis using keep m k1 r rt mk by (auto simp: main_compress_Cons [OF False])
  next
    case False': False
    then show ?thesis using rt k by (auto simp: main_compress_Cons [OF False] split: sum.splits)
  qed
qed

theorem skipped_folders_untouched_witness:
  "lookup (snd (main_compress (\<lambda>n. suffix ''.d'' n) [[''root'']] (Dir True [(''root'', Dir True [(''.h'', Dir True [(''a.d'', File True (Plain ''1''))]),
      (''B'', Dir True [(''b.txt'', File True (Plain ''2''))]), (''C'', Dir True [(''c.d'', File True (Plain ''3''))])])]))) [''root'', ''.h''] =
     Some (Dir True [(''a.d'', File True (Plain ''1''))])"
proof -
  have h: "lookup (Dir True [(''root'', Dir True [(''.h'', Dir True [(''a.d'', File True (Plain ''1''))]),
      (''B'', Dir True [(''b.txt'', File True (Plain ''2''))]), (''C'', Dir True [(''c.d'', File True (Plain ''3''))])])]) ([''root''] @ [''.h'']) = Some (Dir True [(''a.d'', File True (Plain ''1''))])"
    "is_dir (Dir True [(''a.d'', File True (Plain ''1''))])"
    "isHidden ''.h'' \<or> isEmptyFolder (\<lambda>n. suffix ''.d'' n) (Dir True [(''root'', Dir True [(''.h'', Dir True [(''a.d'', File True (Plain ''1''))]),
      (''B'', Dir True [(''b.txt'', File True (Plain ''2''))]), (''C'', Dir True [(''c.d'', File True (Plain ''3''))])])]) ([''root''] @ [''.h''])"
    by (simp_all add: isHidden_def HasPrefix_def)
  from skipped_folders_untouched [OF h, of "[]"] show ?thesis by simp
qed



text \<open>C16: the tasks are exactly the visible directory entries of the root that hold a matching file reachable through readable directories, numbered from 1 in the order of the listing, with their archive beside them.\<close>

theorem tasks_exact:
  "prepare_tasks incl fs root entries [] =
     map (\<lambda>(i, k). task_of root i k)
       (enumerate 1 (map fst (filter (\<lambda>(k, n). is_dir n \<and> \<not> isHidden k \<and>
          (case lookup fs (root @ [k]) of Some m \<Rightarrow> has_match incl k m | None \<Rightarrow> False)) entries)))"
proof -
  have "(\<lambda>(k, n). is_dir n \<and> \<not> isHidden k \<and> \<not> isEmptyFolder incl fs (root @ [k])) =
        (\<lambda>(k, n). is_dir n \<and> \<not> isHidden k \<and>
          (case lookup fs (root @ [k]) of Some m \<Rightarrow> has_match incl k m | None \<Rightarrow> False))"
    by (auto simp: isEmptyFolder_iff split: option.splits)
  then show ?thesis by (simp add: prepare_tasks_eq)
qed

text \<open>C19: on a readable tree the early-exit walk of isEmptyFolder decides the emptiness test of the specification: no file anywhere below the folder matches.\<close>

theorem isEmptyFolder_spec:
  "lookup fs p = Some n \<Longrightarrow> all_readable n \<Longrightarrow> isEmptyFolder incl fs p \<longleftrightarrow> \<not> spec_has_match incl (last p) n"
  by (simp add: isEmptyFolder_iff has_match_spec)

theorem isEmptyFolder_spec_witness:
  "isEmptyFolder (\<lambda>n. suffix ''.d'' n) (Dir True [(''root'', Dir True [(''.h'', Dir True [(''a.d'', File True (Plain ''1''))]),
      (''B'', Dir True [(''b.txt'', File True (Plain ''2''))]), (''C'', Dir True [(''c.d'', File True (Plain ''3''))])])]) [''root'', ''B''] \<longleftrightarrow>
     \<not> spec_has_match (\<lambda>n. suffix ''.d'' n) ''B'' (Dir True [(''b.txt'', File True (Plain ''2''))])"
proof -
  have h: "lookup (Dir True [(''root'', Dir True [(''.h'', Dir True [(''a.d'', File True (Plain ''1''))]),
      (''B'', Dir True [(''b.txt'', File True (Plain ''2''))]), (''C'', Dir True [(''c.d'', File True (Plain ''3''))])])]) [''root'', ''B''] = Some (Dir True [(''b.txt'', File True (Plain ''2''))])"
    "all_readable (Dir True [(''b.txt'', File True (Plain ''2''))])"
    by simp_all
  from isEmptyFolder_spec [OF h] show ?thesis by simp
qed

text \<open>C20: matching files inside an unreadable subfolder do not count. The walk of
  \<open>isEmptyFolder\<close> gets the read error at the subfolder and the callback passes over it
  (lines 125--127), so a folder whose matches the specification finds only below
  unreadable subfolders is treated as empty and gets no task, although the specification's
  test counts every file of the subtree.\<close>

theorem unreadable_subfolder_counts_empty:
  assumes "lookup fs (root @ [k]) = Some (Dir r cs)"
    and "\<forall>(k', c) \<in> set cs. spec_has_match incl k' c \<longrightarrow> (\<exists>cs'. c = Dir False cs')"
  shows "isEmptyFolder incl fs (root @ [k]) \<and> k \<notin> folderName ` set (prepare_tasks incl fs root entries [])"
proof
  have "\<not> has_match incl k' c" if "(k', c) \<in> set cs" for k' c
  proof
    assume h: "has_match incl k' c"
    with assms(2) that has_match_imp_spec obtain cs' where "c = Dir False cs'" by fastforce
    with h show False by simp
  qed
  then show e: "isEmptyFolder incl fs (root @ [k])" using assms(1) by (auto simp: isEmptyFolder_iff)
  show "k \<notin> folderName ` set (prepare_tasks incl fs root entries [])"
  proof
    assume "k \<in> folderName ` set (prepare_tasks incl fs root entries [])"
    then obtain t where "t \<in> set (prepare_tasks incl fs root entries [])" "folderName t = k" by blast
    with e show False by (auto simp: task_of_def dest!: in_prepare_tasks)
  qed
qed

theorem unreadable_subfolder_counts_empty_witness:
  "isEmptyFolder (\<lambda>n. suffix ''.d'' n) (Dir True [(''root'', Dir True [(''A'', Dir True [(''sub'', Dir False [(''x.d'', File True (Plain ''1''))])])])]) [''root'', ''A''] \<and>
   spec_has_match (\<lambda>n. suffix ''.d'' n) ''A'' (Dir True [(''sub'', Dir False [(''x.d'', File True (Plain ''1''))])])"
proof -
  let ?fs = "Dir True [(''root'', Dir True [(''A'', Dir True [(''sub'', Dir False [(''x.d'', File True (Plain ''1''))])])])]"
  have h: "lookup ?fs ([''root''] @ [''A'']) = Some (Dir True [(''sub'', Dir False [(''x.d'', File True (Plain ''1''))])])"
    "\<forall>(k', c) \<in> set [(''sub'', Dir False [(''x.d'', File True (Plain ''1''))])]. spec_has_match (\<lambda>n. suffix ''.d'' n) k' c \<longrightarrow> (\<exists>cs'. c = Dir False cs')"
    by simp_all
  have s: "spec_has_match (\<lambda>n. suffix ''.d'' n) ''A'' (Dir True [(''sub'', Dir False [(''x.d'', File True (Plain ''1''))])])"
    by code_simp
  from unreadable_subfolder_counts_empty [OF h, of "[]"] s show ?thesis by simp
qed

text \<open>C24: the archiver stops without changing the tree on a missing argument, a folder argument that is not a directory, and an unreadable root; it returns normally in each case.\<close>

theorem main_compress_errors:
  "(fst (main_compress incl args fs) = NoArgs \<longleftrightarrow> args = []) \<and>
   (fst (main_compress incl args fs) = BadFolder r \<longleftrightarrow>
      args \<noteq> [] \<and> r = hd args \<and> (r = [] \<or> (case lookup fs r of Some (Dir _ _) \<Rightarrow> False | _ \<Rightarrow> True))) \<and>
   (fst (main_compress incl args fs) = ReadDirFailed e \<longleftrightarrow>
      args \<noteq> [] \<and> hd args \<noteq> [] \<and> e = EACCES \<and> (\<exists>cs. lookup fs (hd args) = Some (Dir False cs))) \<and>
   (case fst (main_compress incl args fs) of
      AllDone _ _ \<Rightarrow> True | NoFolders \<Rightarrow> True | MkdirFailed _ \<Rightarrow> snd (main_compress incl args fs) = fs
    | _ \<Rightarrow> snd (main_compress incl args fs) = fs)"
proof (cases args)
  case (Cons root rest)
  show ?thesis
  proof (cases "root = []")
    case False
    then show ?thesis
      by (auto simp: Cons main_compress_Cons [OF False] split: option.splits node.splits sum.splits)
  qed (auto simp: Cons main_compress_def)
qed (simp add: main_compress_def)

end
