(* ===== verification/GoFlags.thy ===== *)
theory GoFlags
  imports Prelude "HOL-Library.AList"
begin

text \<open>
  Go's \<open>flag\<close> package as both tools use it: \<open>flag.Parse()\<close> runs
  \<open>FlagSet.parseOne\<close> over \<open>os.Args[1:]\<close> until it stops, with \<open>ExitOnError\<close>.
  Parsing stops at the first argument that is not a flag (\<open>-\<close> alone, or anything
  not starting with \<open>-\<close>) and after \<open>--\<close>; the rest are the positional arguments
  (\<open>flag.Arg\<close>, \<open>flag.NArg\<close>). A flag is \<open>-name\<close> or \<open>--name\<close>, with
  \<open>=value\<close> after the first \<open>=\<close>; a boolean flag never takes the next argument as
  its value (its value is \<open>strconv.ParseBool\<close> of the text after \<open>=\<close>, else true); a
  string flag without \<open>=\<close> takes the next argument. An undefined \<open>-h\<close> or
  \<open>-help\<close> is \<open>ErrHelp\<close> (exit status 0), every other error exits with status 2.
  The defined flags and their current values are an association list.
\<close>

datatype flag_value = BoolVal bool | StrVal string

type_synonym flagset = "(string \<times> flag_value) list"

datatype flag_error = ErrHelp | BadSyntax string | NotDefined string | InvalidValue string string
  | NeedsArgument string

text \<open>\<open>strconv.ParseBool\<close>.\<close>

definition ParseBool :: "string \<Rightarrow> bool option" where
  "ParseBool s =
     (if s \<in> {''1'', ''t'', ''T'', ''TRUE'', ''true'', ''True''} then Some True
      else if s \<in> {''0'', ''f'', ''F'', ''FALSE'', ''false'', ''False''} then Some False
      else None)"

text \<open>The split of a flag's name at its first \<open>=\<close> (the loop \<open>for i := 1; ...\<close>,
  which starts at 1 because a name never starts with \<open>=\<close>).\<close>

definition split_value :: "string \<Rightarrow> string \<times> bool \<times> string" where
  "split_value name =
     (if CHR ''='' \<in> set name
      then (takeWhile (\<lambda>c. c \<noteq> CHR ''='') name, True, tl (dropWhile (\<lambda>c. c \<noteq> CHR ''='') name))
      else (name, False, []))"

text \<open>The flag's name after one or two leading dashes (\<open>numMinuses\<close>).\<close>

definition flag_name :: "string \<Rightarrow> string" where
  "flag_name s = (if s ! 1 = CHR ''-'' then drop 2 s else drop 1 s)"

text \<open>\<open>FlagSet.Parse\<close> with \<open>parseOne\<close> unfolded: each call consumes the flag and,
  for a string flag without \<open>=\<close>, its value.\<close>

fun Parse :: "flagset \<Rightarrow> string list \<Rightarrow> flag_error + flagset \<times> string list" where
  "Parse fl [] = Inr (fl, [])"
| "Parse fl (s # args) =
     (if length s < 2 \<or> hd s \<noteq> CHR ''-'' then Inr (fl, s # args)
      else if s = ''--'' then Inr (fl, args)
      else
        (if flag_name s = [] \<or> hd (flag_name s) = CHR ''-'' \<or> hd (flag_name s) = CHR ''=''
         then Inl (BadSyntax s)
         else
           (case split_value (flag_name s) of
              (name, hasValue, value) \<Rightarrow>
                (case map_of fl name of
                   None \<Rightarrow> (if name = ''help'' \<or> name = ''h'' then Inl ErrHelp else Inl (NotDefined name))
                 | Some (BoolVal _) \<Rightarrow>
                     (case ParseBool (if hasValue then value else ''true'') of
                        None \<Rightarrow> Inl (InvalidValue name value)
                      | Some b \<Rightarrow> Parse (AList.update name (BoolVal b) fl) args)
                 | Some (StrVal _) \<Rightarrow>
                     (if hasValue then Parse (AList.update name (StrVal value) fl) args
                      else
                        (case args of
                           [] \<Rightarrow> Inl (NeedsArgument name)
                         | v # args' \<Rightarrow> Parse (AList.update name (StrVal v) fl) args'))))))"

text \<open>\<open>ExitOnError\<close>: the exit status of a parse error.\<close>

definition exit_status :: "flag_error \<Rightarrow> nat" where
  "exit_status e = (if e = ErrHelp then 0 else 2)"

definition bool_flag :: "flagset \<Rightarrow> string \<Rightarrow> bool" where
  "bool_flag fl name = (case map_of fl name of Some (BoolVal b) \<Rightarrow> b | _ \<Rightarrow> False)"

definition string_flag :: "flagset \<Rightarrow> string \<Rightarrow> string" where
  "string_flag fl name = (case map_of fl name of Some (StrVal v) \<Rightarrow> v | _ \<Rightarrow> [])"

lemma split_value_True: "split_value n0 = (name, True, v) \<Longrightarrow> n0 = name @ CHR ''='' # v"
proof -
  assume h: "split_value n0 = (name, True, v)"
  let ?P = "\<lambda>c. c \<noteq> CHR ''=''"
  have e: "CHR ''='' \<in> set n0" and nm: "name = takeWhile ?P n0" and v: "v = tl (dropWhile ?P n0)"
    using h by (auto simp: split_value_def split: if_splits)
  have ne: "dropWhile ?P n0 \<noteq> []" using e by (auto simp: dropWhile_eq_Nil_conv)
  then have "hd (dropWhile ?P n0) = CHR ''=''" using hd_dropWhile [OF ne] by simp
  with ne have "dropWhile ?P n0 = CHR ''='' # v" using v by (metis list.collapse)
  then show ?thesis using nm takeWhile_dropWhile_id [of ?P n0] by simp
qed

lemma flag_arg_form:
  "\<not> (length s < 2 \<or> hd s \<noteq> CHR ''-'') \<Longrightarrow> s = ''-'' @ flag_name s \<or> s = ''--'' @ flag_name s"
  by (cases s rule: remdups_adj.cases) (auto simp: flag_name_def)

text \<open>A boolean flag that \<open>Parse\<close> turns to false was given as \<open>-name=v\<close> or
  \<open>--name=v\<close> with \<open>v\<close> a false value: a bare \<open>-name\<close> only ever sets true.\<close>

lemma Parse_sets_false:
  "Parse fl argv = Inr (fl', rest) \<Longrightarrow> \<not> bool_flag fl' n \<Longrightarrow> bool_flag fl n \<Longrightarrow>
   \<exists>a \<in> set argv. \<exists>v. ParseBool v = Some False \<and> (a = ''-'' @ n @ ''='' @ v \<or> a = ''--'' @ n @ ''='' @ v)"
proof (induction fl argv arbitrary: rest rule: Parse.induct)
  case (2 fl s args)
  show ?case
  proof (cases "length s < 2 \<or> hd s \<noteq> CHR ''-'' \<or> s = ''--'' \<or> flag_name s = [] \<or>
                hd (flag_name s) = CHR ''-'' \<or> hd (flag_name s) = CHR ''=''")
    case True
    then show ?thesis using "2.prems" by (auto split: if_splits)
  next
    case False
    then have c1: "\<not> (length s < 2 \<or> hd s \<noteq> CHR ''-'')" and c2: "s \<noteq> ''--''"
      and c3: "\<not> (flag_name s = [] \<or> hd (flag_name s) = CHR ''-'' \<or> hd (flag_name s) = CHR ''='')"
      by auto
    obtain name hv v where sv: "split_value (flag_name s) = (name, hv, v)" by (metis prod_cases3)
    have keep: "bool_flag (AList.update name x fl) n" if "name = n \<Longrightarrow> x = BoolVal True" for x
      using "2.prems"(3) that by (auto simp: bool_flag_def update_conv')
    have run: "Parse fl (s # args) =
      (case map_of fl name of
         None \<Rightarrow> (if name = ''help'' \<or> name = ''h'' then Inl ErrHelp else Inl (NotDefined name))
       | Some (BoolVal _) \<Rightarrow>
           (case ParseBool (if hv then v else ''true'') of
              None \<Rightarrow> Inl (InvalidValue name v)
            | Some b \<Rightarrow> Parse (AList.update name (BoolVal b) fl) args)
       | Some (StrVal _) \<Rightarrow>
           (if hv then Parse (AList.update name (StrVal v) fl) args
            else (case args of [] \<Rightarrow> Inl (NeedsArgument name)
                  | w # args' \<Rightarrow> Parse (AList.update name (StrVal w) fl) args')))"
      using c1 c2 c3 sv by simp
    show ?thesis
    proof (cases "map_of fl name")
      case None
      then show ?thesis using "2.prems"(1) unfolding run by (simp split: if_splits)
    next
      case (Some fv)
      show ?thesis
      proof (cases fv)
        case (BoolVal b0)
        then obtain b where pb: "ParseBool (if hv then v else ''true'') = Some b"
          and rec: "Parse (AList.update name (BoolVal b) fl) args = Inr (fl', rest)"
          using "2.prems"(1) run Some by (auto split: option.splits)
        show ?thesis
        proof (cases "name = n \<and> b = False")
          case True
          then have hv using pb by (auto simp: ParseBool_def split: if_splits)
          then have "flag_name s = n @ CHR ''='' # v" using sv True split_value_True [of "flag_name s" n v] by simp
          then show ?thesis using flag_arg_form [OF c1] pb \<open>hv\<close> True by force
        next
          case False
          then have "bool_flag (AList.update name (BoolVal b) fl) n" using keep by auto
          then show ?thesis
            using "2.IH"(1) [OF c1 c2 c3 sv [symmetric] refl Some BoolVal pb rec] "2.prems"(2) by auto
        qed
      next
        case (StrVal x)
        have "name \<noteq> n" using "2.prems"(3) Some StrVal by (auto simp: bool_flag_def)
        then have keep': "bool_flag (AList.update name y fl) n" for y using keep by blast
        show ?thesis
        proof (cases hv)
          case True
          then have "Parse (AList.update name (StrVal v) fl) args = Inr (fl', rest)"
            using "2.prems"(1) run Some StrVal by simp
          then show ?thesis
            using "2.IH"(2) [OF c1 c2 c3 sv [symmetric] refl Some StrVal True] "2.prems"(2) keep' by auto
        next
          case False
          then obtain w args' where a: "args = w # args'"
            and "Parse (AList.update name (StrVal w) fl) args' = Inr (fl', rest)"
            using "2.prems"(1) run Some StrVal by (auto split: list.splits)
          then show ?thesis
            using "2.IH"(3) [OF c1 c2 c3 sv [symmetric] refl Some StrVal False a] "2.prems"(2) keep' by auto
        qed
      qed
    qed
  qed
qed simp

end
