(* ===== verification/GlobSyntax.thy ===== *)
theory GlobSyntax
  imports Utf8
begin

text \<open>
  The pattern syntax of Go's \<open>path/filepath.Match\<close> (standard library,
  \<open>match.go\<close>, Unix build), used by the inclusion test of \<open>src/compress.go\<close>
  (lines 126 and 169): \<open>scanChunk\<close> splits a pattern into a run of stars and the chunk
  up to the next star outside brackets, \<open>getEsc\<close> reads one (possibly escaped) rune
  of a character class and \<open>class_ranges\<close> the ranges of a class up to its closing
  bracket. Errors are values: \<open>Inl ErrBadPattern\<close>. Lemmas: each of them consumes
  input, which the matcher's termination proofs use.
\<close>

datatype match_error = ErrBadPattern

definition Separator :: char where
  "Separator = CHR ''/''"

definition backslash :: char where
  "backslash = CHR 0x5C"

text \<open>The \<open>Scan\<close> loop of \<open>scanChunk\<close>: the length of the chunk, a backslash escaping
  the next byte, a star ending the chunk unless it is inside brackets.\<close>

fun scan_len :: "bool \<Rightarrow> string \<Rightarrow> nat" where
  "scan_len inrange [] = 0"
| "scan_len inrange (c # cs) =
     (if c = backslash then (case cs of [] \<Rightarrow> 1 | _ # cs' \<Rightarrow> 2 + scan_len inrange cs')
      else if c = CHR ''['' then Suc (scan_len True cs)
      else if c = CHR '']'' then Suc (scan_len False cs)
      else if c = CHR ''*'' \<and> \<not> inrange then 0
      else Suc (scan_len inrange cs))"

definition scanChunk :: "string \<Rightarrow> bool \<times> string \<times> string" where
  "scanChunk pattern =
     (let star = (pattern \<noteq> [] \<and> hd pattern = CHR ''*'');
          p = dropWhile (\<lambda>c. c = CHR ''*'') pattern;
          i = scan_len False p
      in (star, take i p, drop i p))"

definition getEsc :: "string \<Rightarrow> match_error + nat \<times> string" where
  "getEsc chunk =
     (if chunk = [] \<or> hd chunk = CHR ''-'' \<or> hd chunk = CHR '']'' then Inl ErrBadPattern
      else
        (let chunk1 = (if hd chunk = backslash then tl chunk else chunk) in
         if chunk1 = [] then Inl ErrBadPattern
         else
           (case DecodeRuneInString chunk1 of
              (r, n) \<Rightarrow>
                (if (r = RuneError \<and> n = 1) \<or> drop n chunk1 = [] then Inl ErrBadPattern
                 else Inr (r, drop n chunk1)))))"

text \<open>The range loop of a character class: \<open>nrange\<close> ranges read so far, the rune \<open>r\<close>
  under test, whether one range matched; it returns that and the chunk after the
  closing bracket.\<close>

function class_ranges :: "nat \<Rightarrow> nat \<Rightarrow> bool \<Rightarrow> string \<Rightarrow> match_error + bool \<times> string" where
  "class_ranges nrange r m chunk =
     (if chunk \<noteq> [] \<and> hd chunk = CHR '']'' \<and> 0 < nrange then Inr (m, tl chunk)
      else
        (case getEsc chunk of
           Inl e \<Rightarrow> Inl e
         | Inr (lo, c1) \<Rightarrow>
             (if hd c1 = CHR ''-'' then
                (case getEsc (tl c1) of
                   Inl e \<Rightarrow> Inl e
                 | Inr (hi, c2) \<Rightarrow> class_ranges (Suc nrange) r (m \<or> lo \<le> r \<and> r \<le> hi) c2)
              else class_ranges (Suc nrange) r (m \<or> lo \<le> r \<and> r \<le> lo) c1)))"
  by pat_completeness auto
termination
  by (relation "measure (\<lambda>(n, r, m, c). length c)")
    (auto simp: getEsc_def Let_def split: if_splits prod.splits dest!: DecodeRuneInString_width_pos)

declare class_ranges.simps [simp del]

lemma getEsc_shorter: "getEsc c = Inr (x, c') \<Longrightarrow> length c' < length c"
  by (cases c) (auto simp: getEsc_def Let_def split: if_splits prod.splits dest!: DecodeRuneInString_width_pos)

lemma class_ranges_shorter: "class_ranges n r m c = Inr (x, c') \<Longrightarrow> length c' < length c"
proof (induction n r m c arbitrary: x rule: class_ranges.induct)
  case (1 nrange r m chunk)
  show ?case
  proof (cases "chunk \<noteq> [] \<and> hd chunk = CHR '']'' \<and> 0 < nrange")
    case True
    then show ?thesis using "1.prems" by (cases chunk) (auto simp: class_ranges.simps [of nrange])
  next
    case False
    then obtain lo c1 where e1: "getEsc chunk = Inr (lo, c1)"
      using "1.prems" by (auto simp: class_ranges.simps [of nrange] split: sum.splits)
    have l1: "length c1 < length chunk" using getEsc_shorter [OF e1] .
    show ?thesis
    proof (cases "hd c1 = CHR ''-''")
      case True
      then obtain hi c2 where e2: "getEsc (tl c1) = Inr (hi, c2)"
        using "1.prems" False e1 by (auto simp: class_ranges.simps [of nrange] split: sum.splits)
      have "length c' < length c2"
        using "1.IH"(1) [OF False e1 refl True e2 refl] "1.prems" False e1 True e2
        by (simp add: class_ranges.simps [of nrange])
      then show ?thesis using getEsc_shorter [OF e2] l1 by simp
    next
      case hd: False
      have "length c' < length c1"
        using "1.IH"(2) [OF False e1 refl hd] "1.prems" False e1 hd
        by (simp add: class_ranges.simps [of nrange])
      then show ?thesis using l1 by simp
    qed
  qed
qed

lemma scan_len_le: "scan_len inrange p \<le> length p"
  by (induction inrange p rule: scan_len.induct) (auto split: list.splits)

lemma scanChunk_shorter:
  assumes "pattern \<noteq> []" "scanChunk pattern = (star, chunk, rest)"
  shows "length rest < length pattern"
proof (cases "hd pattern = CHR ''*''")
  case True
  then obtain p' where "pattern = CHR ''*'' # p'" using assms(1) by (cases pattern) auto
  then show ?thesis
    using assms(2) length_dropWhile_le [of "\<lambda>c. c = CHR ''*''" p'] by (auto simp: scanChunk_def Let_def)
next
  case False
  then obtain c p' where p: "pattern = c # p'" "c \<noteq> CHR ''*''" using assms(1) by (cases pattern) auto
  then have "0 < scan_len False pattern" by (auto split: list.splits)
  then show ?thesis using assms(2) p by (auto simp: scanChunk_def Let_def)
qed

end
