(* ===== verification/Glob.thy ===== *)
theory Glob
  imports GlobSyntax
begin

text \<open>
  Go's \<open>path/filepath.Match\<close> (\<open>match.go\<close>, Unix build) and the ASCII path of
  \<open>strings.ToLower\<close>, which together make the inclusion test of \<open>src/compress.go\<close>.
  \<open>matchChunk_loop failed chunk s\<close> is the loop of \<open>matchChunk\<close>: after a mismatch
  (\<open>failed\<close>) it stops reading \<open>s\<close> but keeps parsing the chunk, so a malformed chunk is
  an error even when the name does not match. \<open>star_loop\<close> is the loop that, after a
  star, retries the chunk at every later byte offset up to the next separator;
  \<open>check_rest\<close> the final loop that checks the syntax of the rest of the pattern before
  a mismatch is reported. \<open>Match\<close> is the labelled loop \<open>Pattern\<close>.
\<close>

function matchChunk_loop :: "bool \<Rightarrow> string \<Rightarrow> string \<Rightarrow> match_error + string \<times> bool" where
  "matchChunk_loop failed [] s = Inr (if failed then ([], False) else (s, True))"
| "matchChunk_loop failed0 (c # cs) s0 =
     (let failed = (failed0 \<or> s0 = []) in
      if c = CHR ''['' then
        (let r = (if failed then 0 else fst (DecodeRuneInString s0));
             s = (if failed then s0 else drop (rune_width s0) s0);
             negated = (cs \<noteq> [] \<and> hd cs = CHR ''^'');
             chunk = (if negated then tl cs else cs)
         in (case class_ranges 0 r False chunk of
               Inl e \<Rightarrow> Inl e
             | Inr (m, chunk') \<Rightarrow> matchChunk_loop (failed \<or> m = negated) chunk' s))
      else if c = CHR ''?'' then
        (if failed then matchChunk_loop failed cs s0
         else matchChunk_loop (hd s0 = Separator) cs (drop (rune_width s0) s0))
      else if c = backslash then
        (case cs of
           [] \<Rightarrow> Inl ErrBadPattern
         | c' # cs' \<Rightarrow>
             (if failed then matchChunk_loop failed cs' s0
              else matchChunk_loop (c' \<noteq> hd s0) cs' (tl s0)))
      else if failed then matchChunk_loop failed cs s0
      else matchChunk_loop (c \<noteq> hd s0) cs (tl s0))"
  by pat_completeness auto
termination
  by (relation "measure (\<lambda>(f, c, s). length c)")
    (auto dest!: class_ranges_shorter split: if_splits)

definition matchChunk :: "string \<Rightarrow> string \<Rightarrow> match_error + string \<times> bool" where
  "matchChunk chunk s = matchChunk_loop False chunk s"

fun star_loop :: "string \<Rightarrow> bool \<Rightarrow> string \<Rightarrow> match_error + string option" where
  "star_loop chunk lst [] = Inr None"
| "star_loop chunk lst (c # cs) =
     (if c = Separator then Inr None
      else
        (case matchChunk chunk cs of
           Inl e \<Rightarrow> Inl e
         | Inr (t, ok) \<Rightarrow>
             (if ok then (if lst \<and> t \<noteq> [] then star_loop chunk lst cs else Inr (Some t))
              else star_loop chunk lst cs)))"

function check_rest :: "string \<Rightarrow> match_error + bool" where
  "check_rest pattern =
     (if pattern = [] then Inr False
      else
        (case scanChunk pattern of
           (_, chunk, rest) \<Rightarrow>
             (case matchChunk chunk [] of
                Inl e \<Rightarrow> Inl e
              | Inr _ \<Rightarrow> check_rest rest)))"
  by pat_completeness auto
termination
  by (relation "measure length") (auto intro: scanChunk_shorter [OF _ sym])

function Match :: "string \<Rightarrow> string \<Rightarrow> match_error + bool" where
  "Match pattern name =
     (if pattern = [] then Inr (name = [])
      else
        (case scanChunk pattern of
           (star, chunk, rest) \<Rightarrow>
             (if star \<and> chunk = [] then Inr (Separator \<notin> set name)
              else
                (case matchChunk chunk name of
                   Inl e \<Rightarrow> Inl e
                 | Inr (t, ok) \<Rightarrow>
                     (if ok \<and> (t = [] \<or> rest \<noteq> []) then Match rest t
                      else if \<not> star then check_rest rest
                      else
                        (case star_loop chunk (rest = []) name of
                           Inl e \<Rightarrow> Inl e
                         | Inr (Some t') \<Rightarrow> Match rest t'
                         | Inr None \<Rightarrow> check_rest rest))))))"
  by pat_completeness auto
termination
  by (relation "measure (\<lambda>(p, n). length p)") (auto intro: scanChunk_shorter [OF _ sym])

declare check_rest.simps [simp del] Match.simps [simp del]

text \<open>\<open>strings.ToLower\<close> on its ASCII path: \<open>A\<close>--\<open>Z\<close> become \<open>a\<close>--\<open>z\<close>.\<close>

definition lower_ascii :: "char \<Rightarrow> char" where
  "lower_ascii c = (let b = (of_char c :: nat) in if 65 \<le> b \<and> b \<le> 90 then char_of (b + 32) else c)"

definition ToLower :: "string \<Rightarrow> string" where
  "ToLower s = map lower_ascii s"

text \<open>The inclusion test itself; both call sites treat an error as no match (line 126
  discards it, line 169 returns \<open>nil\<close> on it).\<close>

definition include_match :: "string \<Rightarrow> name \<Rightarrow> bool" where
  "include_match includePattern base =
     (case Match (ToLower includePattern) (ToLower base) of Inr m \<Rightarrow> m | Inl _ \<Rightarrow> False)"

text \<open>Reference predicate: a byte that \<open>Match\<close> treats as itself (not \<open>*\<close>,
  \<open>?\<close>, \<open>[\<close> or a backslash).\<close>

definition literal_char :: "char \<Rightarrow> bool" where
  "literal_char c \<longleftrightarrow> c \<noteq> CHR ''*'' \<and> c \<noteq> CHR ''?'' \<and> c \<noteq> CHR ''['' \<and> c \<noteq> backslash"

lemma scan_len_literal: "list_all literal_char p \<Longrightarrow> scan_len inrange p = length p"
  by (induction p arbitrary: inrange) (auto simp: literal_char_def)

lemma scanChunk_literal:
  assumes "list_all literal_char p"
  shows "p \<noteq> [] \<Longrightarrow> scanChunk p = (False, p, [])"
    and "scanChunk (CHR ''*'' # p) = (True, p, [])"
proof -
  have d: "dropWhile (\<lambda>c. c = CHR ''*'') p = p" using assms by (cases p) (auto simp: literal_char_def)
  show "p \<noteq> [] \<Longrightarrow> scanChunk p = (False, p, [])"
    using assms d by (cases p) (auto simp: scanChunk_def scan_len_literal literal_char_def)
  show "scanChunk (CHR ''*'' # p) = (True, p, [])"
    using assms d by (simp add: scanChunk_def scan_len_literal)
qed

lemma matchChunk_loop_literal:
  "list_all literal_char p \<Longrightarrow>
   matchChunk_loop f p s = Inr (if \<not> f \<and> prefix p s then (drop (length p) s, True) else ([], False))"
proof (induction p arbitrary: f s)
  case (Cons c cs)
  then show ?case by (cases s) (auto simp: literal_char_def)
qed simp

lemma star_loop_literal:
  assumes "list_all literal_char lit" "Separator \<notin> set s"
  shows "star_loop lit True s = Inr (if s \<noteq> [] \<and> suffix lit (tl s) then Some [] else None)"
  using assms(2)
proof (induction s)
  case (Cons c cs)
  have "star_loop lit True (c # cs) = (if lit = cs then Inr (Some []) else star_loop lit True cs)"
    using Cons.prems matchChunk_loop_literal [OF assms(1), of False cs] by (auto simp: matchChunk_def)
  then show ?case using Cons suffix_tl_iff [of lit cs] by auto
qed simp

lemma Match_literal: "list_all literal_char p \<Longrightarrow> Match p s = Inr (p = s)"
  by (cases "p = []")
    (auto simp: Match.simps [of p s] Match.simps [of "[]"] scanChunk_literal check_rest.simps
      matchChunk_def matchChunk_loop_literal dest: prefix_length_le)

lemma Match_star_literal:
  assumes "list_all literal_char lit" "Separator \<notin> set s"
  shows "Match (CHR ''*'' # lit) s = Inr (suffix lit s)"
proof (cases "lit = []")
  case True
  then show ?thesis using assms(2) by (simp add: Match.simps [of "[CHR ''*'']"] scanChunk_def)
next
  case False
  have "s = lit \<or> (s \<noteq> [] \<and> suffix lit (tl s)) \<longleftrightarrow> suffix lit s"
    using False by (cases s) (auto simp: suffix_Cons)
  then show ?thesis
    using False assms
    by (auto simp: Match.simps [of "CHR ''*'' # lit" s] Match.simps [of "[]" "[]"] scanChunk_literal(2)
        matchChunk_def matchChunk_loop_literal star_loop_literal check_rest.simps
        dest: prefix_length_le)
qed

lemma lower_ascii_cases:
  "lower_ascii c = c \<or> (65 \<le> (of_char c :: nat) \<and> (of_char c :: nat) \<le> 90 \<and>
     (of_char (lower_ascii c) :: nat) = of_char c + 32)"
  by (auto simp: lower_ascii_def Let_def)

lemma lower_ascii_literal: "literal_char c \<Longrightarrow> literal_char (lower_ascii c)"
  using lower_ascii_cases [of c] by (auto simp: literal_char_def backslash_def)

lemma lower_ascii_Separator:
  "lower_ascii c = Separator \<longleftrightarrow> c = Separator" "Separator = lower_ascii c \<longleftrightarrow> c = Separator"
proof -
  have "lower_ascii c = Separator \<longleftrightarrow> c = Separator"
  proof
    assume h: "lower_ascii c = Separator"
    then have "(of_char (lower_ascii c) :: nat) = 47" by (simp add: Separator_def)
    then show "c = Separator" using lower_ascii_cases [of c] h by auto
  qed (simp add: lower_ascii_def Separator_def)
  then show "lower_ascii c = Separator \<longleftrightarrow> c = Separator" "Separator = lower_ascii c \<longleftrightarrow> c = Separator"
    by auto
qed

lemma ToLower_literal: "list_all literal_char p \<Longrightarrow> list_all literal_char (ToLower p)"
  by (simp add: ToLower_def list_all_iff lower_ascii_literal)

lemma Separator_ToLower: "Separator \<in> set (ToLower s) \<longleftrightarrow> Separator \<in> set s"
  by (force simp: ToLower_def lower_ascii_Separator)

text \<open>C9: with a pattern without metacharacters (\<open>*\<close>, \<open>?\<close>, \<open>[\<close>, backslash)
  the inclusion test is equivalent to case-insensitive equality of the pattern and the base
  name: the chunk machinery of \<open>filepath.Match\<close> reduces to comparing the two strings.\<close>

theorem include_match_literal:
  assumes "list_all literal_char p"
  shows "include_match p k \<longleftrightarrow> ToLower p = ToLower k"
  using Match_literal [OF ToLower_literal [OF assms]] by (simp add: include_match_def)

theorem include_match_literal_witness:
  "list_all literal_char ''RUN.d'' \<and> include_match ''RUN.d'' ''run.D'' \<and> \<not> include_match ''RUN.d'' ''run.dx''"
proof -
  have h: "list_all literal_char ''RUN.d''" by (simp add: literal_char_def backslash_def)
  have "ToLower ''RUN.d'' = ToLower ''run.D''" "ToLower ''RUN.d'' \<noteq> ToLower ''run.dx''" by code_simp+
  then show ?thesis using h include_match_literal [OF h, of "''run.D''"] include_match_literal [OF h, of "''run.dx''"]
    by simp
qed

text \<open>C7: the inclusion test with a pattern \<open>*\<close> followed by literal text (the
  specification's \<open>*.d\<close>, \<open>*.raw\<close>, and the default \<open>*\<close>) accepts exactly the base
  names that end with that text, compared case-insensitively: \<open>Match\<close>'s star loop finds
  the suffix at the only offset where it can end the name.\<close>

theorem include_match_star_suffix:
  assumes "list_all literal_char lit" "CHR ''/'' \<notin> set k"
  shows "include_match (CHR ''*'' # lit) k \<longleftrightarrow> suffix (ToLower lit) (ToLower k)"
proof -
  have "ToLower (CHR ''*'' # lit) = CHR ''*'' # ToLower lit" by (simp add: ToLower_def lower_ascii_def)
  moreover have "Separator \<notin> set (ToLower k)" using assms(2) Separator_ToLower [of k] by (simp add: Separator_def)
  ultimately show ?thesis
    using Match_star_literal [OF ToLower_literal [OF assms(1)]] by (simp add: include_match_def)
qed

theorem include_match_star_suffix_witness:
  "list_all literal_char ''.D'' \<and> CHR ''/'' \<notin> set ''X.d'' \<and> include_match ''*.D'' ''X.d''"
proof -
  have h: "list_all literal_char ''.D''" "CHR ''/'' \<notin> set ''X.d''" by (simp_all add: literal_char_def backslash_def)
  have "suffix (ToLower ''.D'') (ToLower ''X.d'')" by code_simp
  then show ?thesis using h include_match_star_suffix [OF h] by simp
qed

end
