(* ===== verification/Cli.thy ===== *)
theory Cli
  imports Renamer Archiver GoFlags Glob
begin

text \<open>
  The command lines of both tools: the flags each declares, \<open>flag.Parse()\<close>, the
  conversion of the folder argument to a path of the tree, and the call of the tool's
  \<open>main\<close> body (\<open>main_rename\<close>, \<open>main_compress\<close>). The working directory is the root
  of the tree, so \<open>a/b\<close> and \<open>/a/b\<close> name the same path. \<open>arg_path\<close> reads the
  argument after \<open>strings.TrimSuffix(flag.Arg(0), "/")\<close>; an argument with an empty,
  \<open>.\<close> or \<open>..\<close> component (such as \<open>data//\<close>, trimmed to \<open>data/\<close>) is outside
  the model, because \<open>compress.go\<close> then builds \<open>originalDir\<close> by string
  concatenation from the uncleaned text.
\<close>

fun split_sep :: "string \<Rightarrow> string list" where
  "split_sep [] = [[]]"
| "split_sep (c # cs) =
     (let ws = split_sep cs in if c = CHR ''/'' then [] # ws else (c # hd ws) # tl ws)"

definition arg_path :: "string \<Rightarrow> path option" where
  "arg_path s =
     (if s = [] then Some []
      else
        (let cs = split_sep s; cs' = (if hd s = CHR ''/'' then tl cs else cs) in
         if list_all (\<lambda>c. c \<noteq> [] \<and> c \<noteq> ''.'' \<and> c \<noteq> ''..'') cs' then Some cs' else None))"

text \<open>Lines 38 of \<open>rename.go\<close> and 37 of \<open>compress.go\<close>:
  \<open>root := strings.TrimSuffix(flag.Arg(0), string(os.PathSeparator))\<close>.\<close>

definition root_arg :: "string \<Rightarrow> path option" where
  "root_arg a = arg_path (TrimSuffix a ''/'')"

datatype 'a cli_result = FlagExit nat | PathOutsideModel string | Ran 'a

text \<open>\<open>rename.go\<close> lines 18--38: the flag \<open>--dry\<close> (default true), \<open>flag.Parse\<close>,
  and the root argument.\<close>

definition rename_flags :: flagset where
  "rename_flags = [(''dry'', BoolVal True)]"

definition rename_cli :: "string list \<Rightarrow> fs \<Rightarrow> rename_outcome cli_result \<times> fs" where
  "rename_cli argv fs =
     (case Parse rename_flags argv of
        Inl e \<Rightarrow> (FlagExit (exit_status e), fs)
      | Inr (fl, args) \<Rightarrow>
          (case args of
             [] \<Rightarrow> (case main_rename (bool_flag fl ''dry'') [] fs of (out, fs') \<Rightarrow> (Ran out, fs'))
           | a # _ \<Rightarrow>
               (case root_arg a of
                  None \<Rightarrow> (PathOutsideModel a, fs)
                | Some root \<Rightarrow>
                    (case main_rename (bool_flag fl ''dry'') [root] fs of (out, fs') \<Rightarrow> (Ran out, fs')))))"

text \<open>\<open>compress.go\<close> lines 13--38: the flags \<open>--include\<close> (default \<open>*\<close>) and
  \<open>--verbose\<close>, \<open>flag.Parse\<close>, the root argument; the inclusion test is
  \<open>include_match\<close> of the parsed pattern.\<close>

definition compress_flags :: flagset where
  "compress_flags = [(''include'', StrVal ''*''), (''verbose'', BoolVal False)]"

definition compress_cli :: "string list \<Rightarrow> fs \<Rightarrow> compress_outcome cli_result \<times> fs" where
  "compress_cli argv fs =
     (case Parse compress_flags argv of
        Inl e \<Rightarrow> (FlagExit (exit_status e), fs)
      | Inr (fl, args) \<Rightarrow>
          (let incl = include_match (string_flag fl ''include'') in
           case args of
             [] \<Rightarrow> (case main_compress incl [] fs of (out, fs') \<Rightarrow> (Ran out, fs'))
           | a # _ \<Rightarrow>
               (case root_arg a of
                  None \<Rightarrow> (PathOutsideModel a, fs)
                | Some root \<Rightarrow>
                    (case main_compress incl [root] fs of (out, fs') \<Rightarrow> (Ran out, fs')))))"

lemma split_sep_not_Nil [simp]: "split_sep s \<noteq> []"
  by (cases s) (auto simp: Let_def)

lemma main_rename_Finished_dry: "fst (main_rename dry args fs) = Finished d n ps \<Longrightarrow> d = dry"
  by (auto simp: main_rename_def Let_def split: list.splits if_splits sum.splits prod.splits)

lemma has_match_never: "(\<And>k. \<not> incl k) \<Longrightarrow> \<not> has_match incl k n"
  by (induction incl k n rule: has_match.induct) auto

lemma prepare_tasks_never:
  "(\<And>k. \<not> incl k) \<Longrightarrow> prepare_tasks incl fs root entries ts = ts"
proof (induction entries arbitrary: ts)
  case (Cons e entries)
  then show ?case
    by (cases e) (simp add: isEmptyFolder_iff has_match_never split: option.splits)
qed simp

lemma main_compress_never: "(\<And>k. \<not> incl k) \<Longrightarrow> fst (main_compress incl args fs) \<noteq> AllDone n ms"
  by (auto simp: main_compress_def prepare_tasks_never Let_def split: list.splits if_splits sum.splits prod.splits)

lemma Match_unclosed_class: "Match ''['' s = Inl ErrBadPattern"
  by (cases s) (simp_all add: Match.simps [of "''[''"] scanChunk_def matchChunk_def class_ranges.simps getEsc_def)

lemma include_match_unclosed_class: "\<not> include_match ''['' k"
  by (simp add: include_match_def ToLower_def lower_ascii_def Match_unclosed_class)

text \<open>C5: flags after the folder argument are ignored: Go's \<open>flag.Parse\<close> stops at the
  first positional argument, so \<open>mtbls-compress <folder> --include=<glob>\<close>, the order the
  usage message and the specification give, runs with the default pattern \<open>*\<close> and
  archives every file (here \<open>y.raw\<close> as well as \<open>x.d\<close>).\<close>

theorem compress_flags_after_folder_ignored:
  "a \<noteq> [] \<Longrightarrow> hd a \<noteq> CHR ''-'' \<Longrightarrow> compress_cli (a # rest) fs = compress_cli [a] fs"
  by (simp add: compress_cli_def)

theorem compress_flags_after_folder_ignored_witness:
  "''root'' \<noteq> [] \<and> hd ''root'' \<noteq> CHR ''-'' \<and>
   compress_cli [''root'', ''--include=*.d''] (Dir True [(''root'', Dir True [(''A'', Dir True [(''x.d'', File True (Plain ''1'')), (''y.raw'', File True (Plain ''2''))])])]) = compress_cli [''root''] (Dir True [(''root'', Dir True [(''A'', Dir True [(''x.d'', File True (Plain ''1'')), (''y.raw'', File True (Plain ''2''))])])]) \<and>
   lookup (snd (compress_cli [''root'', ''--include=*.d''] (Dir True [(''root'', Dir True [(''A'', Dir True [(''x.d'', File True (Plain ''1'')), (''y.raw'', File True (Plain ''2''))])])]))) [''root'', ''A.zip''] =
     Some (File True (Zip [Entry ''A/x.d'' (Plain ''1'') True, Entry ''A/y.raw'' (Plain ''2'') True]))"
proof -
  have "lookup (snd (compress_cli [''root''] (Dir True [(''root'', Dir True [(''A'', Dir True [(''x.d'', File True (Plain ''1'')), (''y.raw'', File True (Plain ''2''))])])]))) [''root'', ''A.zip''] =
     Some (File True (Zip [Entry ''A/x.d'' (Plain ''1'') True, Entry ''A/y.raw'' (Plain ''2'') True]))"
    by code_simp
  then show ?thesis using compress_flags_after_folder_ignored [of "''root''" "[''--include=*.d'']" "(Dir True [(''root'', Dir True [(''A'', Dir True [(''x.d'', File True (Plain ''1'')), (''y.raw'', File True (Plain ''2''))])])])"] by simp
qed

text \<open>C6: the renamer renames only when asked explicitly: a run that is not a dry run had an
  argument \<open>-dry=v\<close> or \<open>--dry=v\<close> with \<open>v\<close> a false value of
  \<open>strconv.ParseBool\<close>; a bare \<open>--dry\<close> sets true, and \<open>--dry false\<close> makes
  \<open>false\<close> the folder argument.\<close>

theorem live_rename_needs_explicit_false:
  assumes "fst (rename_cli argv fs) = Ran (Finished False n ps)"
  shows "\<exists>a \<in> set argv. \<exists>v. ParseBool v = Some False \<and> (a = ''-dry='' @ v \<or> a = ''--dry='' @ v)"
proof -
  obtain fl args rs where p: "Parse rename_flags argv = Inr (fl, args)"
    and m: "fst (main_rename (bool_flag fl ''dry'') rs fs) = Finished False n ps"
    using assms by (auto simp: rename_cli_def split: sum.splits list.splits option.splits prod.splits)
      (metis fst_conv)+
  have "\<not> bool_flag fl ''dry''" using main_rename_Finished_dry [OF m] by simp
  moreover have "bool_flag rename_flags ''dry''" by (simp add: rename_flags_def bool_flag_def)
  ultimately show ?thesis using Parse_sets_false [OF p, of "''dry''"] by simp
qed

theorem live_rename_needs_explicit_false_witness:
  "fst (rename_cli [''-dry=false'', ''r''] (Dir True [(''r'', Dir True [(''a b'', File True (Plain ''1''))])])) = Ran (Finished False 1 [Planned [''r'', ''a b''] [''r'', ''a__b'']]) \<and>
   (\<exists>a \<in> set [''-dry=false'', ''r'']. \<exists>v. ParseBool v = Some False \<and> (a = ''-dry='' @ v \<or> a = ''--dry='' @ v))"
proof -
  have h: "fst (rename_cli [''-dry=false'', ''r''] (Dir True [(''r'', Dir True [(''a b'', File True (Plain ''1''))])])) = Ran (Finished False 1 [Planned [''r'', ''a b''] [''r'', ''a__b'']])"
    by code_simp
  show ?thesis using h live_rename_needs_explicit_false [OF h] by simp
qed

text \<open>C8: a malformed inclusion pattern such as \<open>[\<close> is not reported: \<open>filepath.Match\<close>
  returns \<open>ErrBadPattern\<close> for every name, both call sites read that as no match, so every
  folder counts as empty and nothing is archived.\<close>

theorem unclosed_include_pattern_archives_nothing:
  "a \<noteq> [] \<Longrightarrow> hd a \<noteq> CHR ''-'' \<Longrightarrow>
   fst (compress_cli [''--include=['', a] fs) \<noteq> Ran (AllDone n ms)"
  using main_compress_never [of "include_match ''[''", OF include_match_unclosed_class]
  by (auto simp: compress_cli_def compress_flags_def string_flag_def split_value_def flag_name_def
      split: option.splits prod.splits) (metis fst_conv)

theorem unclosed_include_pattern_archives_nothing_witness:
  "''root'' \<noteq> [] \<and> hd ''root'' \<noteq> CHR ''-'' \<and>
   fst (compress_cli [''--include=['', ''root''] (Dir True [(''root'', Dir True [(''A'', Dir True [(''x.d'', File True (Plain ''1'')), (''y.raw'', File True (Plain ''2''))])])])) \<noteq> Ran (AllDone 1 [])"
  using unclosed_include_pattern_archives_nothing [of "''root''" "(Dir True [(''root'', Dir True [(''A'', Dir True [(''x.d'', File True (Plain ''1'')), (''y.raw'', File True (Plain ''2''))])])])" 1 "[]"] by simp

end
