(* ===== verification/RenameRun.thy ===== *)
theory RenameRun
  imports Renamer
begin

text \<open>
  Step 2 of \<open>src/rename.go\<close> (lines 101--112) when nothing goes wrong. The
  reference predicate \<open>rename_ready fs ps\<close> says that every pair of \<open>ps\<close> renames an
  existing entry to a free name in the same directory. One \<open>os.Rename\<close> of a pair that
  no later pair lies below keeps the rest ready (\<open>rename_ready_step\<close>, by the frame
  lemmas of \<open>FileTree\<close>), so \<open>apply_renames\<close> performs all of them. Step 1 yields
  such a list: its old paths are distinct entries of the tree, its new paths are free
  siblings, and its reverse is bottom-up; with distinct targets every planned rename of a
  live run is carried out.
\<close>

definition rename_ready :: "fs \<Rightarrow> (path \<times> path) list \<Rightarrow> bool" where
  "rename_ready fs ps \<longleftrightarrow>
     (\<forall>(old, new) \<in> set ps. old \<noteq> [] \<and> butlast new = butlast old \<and> lookup fs old \<noteq> None \<and> lookup fs new = None)"

lemma rename_ready_step:
  assumes ready: "rename_ready fs ((old, new) # ps)"
    and dist: "old \<notin> fst ` set ps" "new \<notin> snd ` set ps"
    and order: "\<forall>p \<in> set ps. \<not> strict_prefix old (fst p)"
  shows "\<exists>fs'. os_rename fs old new = Inr fs' \<and> rename_ready fs' ps"
proof -
  from ready obtain nd where o: "old \<noteq> []" and sib: "butlast new = butlast old"
    and lo: "lookup fs old = Some nd" and ln: "lookup fs new = None"
    by (auto simp: rename_ready_def)
  have nn: "new \<noteq> []" using ln by auto
  from lookup_strict_prefix_dir [OF lo strict_prefix_butlast [OF o]]
  obtain r cs where par: "lookup fs (butlast old) = Some (Dir r cs)" by blast
  have npo: "\<not> prefix old new"
  proof
    assume "prefix old new"
    then have "prefix old (butlast new) \<or> old = new" by (metis nn append_butlast_last_id prefix_snoc)
    then show False using lo ln sib o strict_prefix_butlast [OF o] by (auto simp: strict_prefix_def prefix_order.antisym)
  qed
  let ?fs1 = "update_at old None fs"
  let ?fs' = "update_at new (Some nd) ?fs1"
  have ren: "os_rename fs old new = Inr ?fs'"
    using lo ln o nn npo par sib by (simp add: os_rename_def)
  have "rename_ready ?fs' ps"
    unfolding rename_ready_def
  proof (intro ballI, clarify)
    fix o' n' assume in_ps: "(o', n') \<in> set ps"
    with ready have o': "o' \<noteq> []" "butlast n' = butlast o'" "lookup fs o' \<noteq> None" "lookup fs n' = None"
      by (auto simp: rename_ready_def)
    have ne: "o' \<noteq> old" "n' \<noteq> new" using dist in_ps by force+
    have nso: "\<not> strict_prefix old o'" using order in_ps by auto
    from o'(3) obtain nd' where lo': "lookup fs o' = Some nd'" by auto
    \<comment> \<open>the old paths of later pairs still resolve\<close>
    have "lookup ?fs' o' \<noteq> None"
    proof (cases "prefix o' old")
      case True
      with ne have s: "strict_prefix o' old" by (simp add: strict_prefix_def)
      from lookup_strict_prefix_dir [OF lo s] obtain r1 c1 where "lookup fs o' = Some (Dir r1 c1)" by blast
      from lookup_update_at_ancestor [OF s this] obtain c2 where d1: "lookup ?fs1 o' = Some (Dir r1 c2)" by blast
      have "prefix o' (butlast old)"
      proof -
        have h: "prefix o' (butlast old @ [last old])" using s o by (simp add: strict_prefix_def)
        have "o' = butlast old @ [last old] \<or> prefix o' (butlast old)"
          using prefix_snoc [of o' "butlast old" "last old"] h by blast
        then show ?thesis using ne(1) o by auto
      qed
      then have "strict_prefix o' new"
        using sib strict_prefix_butlast [OF nn] by (simp add: prefix_order.le_less_trans)
      from lookup_update_at_ancestor [OF this d1] show ?thesis by auto
    next
      case False
      with nso ne have po: "parallel old o'" by (auto simp: parallel_def strict_prefix_def)
      have "\<not> prefix new o'" using lookup_prefix_exists [OF lo'] ln by fastforce
      moreover have "\<not> prefix o' new"
      proof
        assume "prefix o' new"
        moreover have "o' \<noteq> new" using lo' ln by auto
        ultimately have "prefix o' old" using sibling_prefix [OF sib o] by blast
        with False show False ..
      qed
      ultimately show ?thesis using po lo' by (simp add: lookup_update_at_other lookup_update_at_parallel)
    qed
    moreover
    \<comment> \<open>the new paths of later pairs are still free\<close>
    have "lookup ?fs1 n' = None"
    proof (cases "prefix old n'")
      case True
      then obtain q where "n' = old @ q" by (auto simp: prefix_def)
      with lookup_update_at_below [OF par o, of None q] show ?thesis by simp
    next
      case False
      have "\<not> prefix n' old" using lookup_prefix_exists [OF lo] o'(4) by fastforce
      with False show ?thesis using o'(4) by (simp add: lookup_update_at_other)
    qed
    then have "lookup ?fs' n' = None"
    proof -
      assume f1: "lookup ?fs1 n' = None"
      have "\<not> prefix new n'"
      proof
        assume p: "prefix new n'"
        from p obtain zs where zs: "n' = new @ zs" by (auto simp: prefix_def)
        with ne(2) obtain x q where q: "n' = new @ x # q" by (cases zs) auto
        then have "prefix new (butlast n')" by (simp add: butlast_append prefix_def)
        then have "prefix new (butlast o')" using o'(2) by simp
        then have "prefix new o'"
          using strict_prefix_butlast [OF o'(1)] by (auto intro: prefix_order.trans simp: strict_prefix_def)
        with lookup_prefix_exists [OF lo'] ln show False by fastforce
      qed
      moreover have "\<not> prefix n' new"
      proof
        assume "prefix n' new"
        then have "prefix n' old" using sibling_prefix [OF sib o, of n'] ne(2) by simp
        with lookup_prefix_exists [OF lo] o'(4) show False by fastforce
      qed
      ultimately show ?thesis using f1 by (simp add: lookup_update_at_other)
    qed
    ultimately show "o' \<noteq> [] \<and> butlast n' = butlast o' \<and> lookup ?fs' o' \<noteq> None \<and> lookup ?fs' n' = None"
      using o' by simp
  qed
  with ren show ?thesis by blast
qed

lemma apply_renames_ready:
  "rename_ready fs ps \<Longrightarrow> distinct (map fst ps) \<Longrightarrow> distinct (map snd ps) \<Longrightarrow>
   sorted_wrt (\<lambda>a b. \<not> strict_prefix (fst a) (fst b)) ps \<Longrightarrow>
     snd (apply_renames False fs ps) = map (\<lambda>(old, new). Planned old new) ps"
proof (induction ps arbitrary: fs)
  case (Cons p ps)
  obtain old new where p: "p = (old, new)" by (cases p)
  from rename_ready_step [of fs old new ps] Cons.prems p
  obtain fs' where r: "os_rename fs old new = Inr fs'" and rd: "rename_ready fs' ps"
    by (auto simp: image_iff)
  from Cons.IH [OF rd] Cons.prems r show ?case
    by (cases "apply_renames False fs' ps") (simp add: p rename_one_def)
qed simp


lemma map_fst_map_filter_candidates:
  "map fst (List.map_filter (rename_candidate fs root) vs) =
     map v_path (filter (\<lambda>v. rename_candidate fs root v \<noteq> None) vs)"
  by (induction vs) (auto split: option.splits dest!: rename_candidate_SomeD)

lemma collect_candidates_distinct_old:
  "wf_fs fs \<Longrightarrow> distinct (map fst (collect_candidates fs root))"
proof -
  assume wf: "wf_fs fs"
  let ?P = "\<lambda>v. rename_candidate fs root v \<noteq> None"
  have "distinct (map v_path (filter (\<lambda>v. \<not> v_err v) (WalkDir fs root)))"
    using wf by (auto simp: WalkDir_def walkdir_from_distinct dest: wf_fs_lookup split: option.splits)
  then have "distinct (map v_path (filter ?P (filter (\<lambda>v. \<not> v_err v) (WalkDir fs root))))"
    by (rule distinct_map_filter)
  moreover have "filter ?P (filter (\<lambda>v. \<not> v_err v) (WalkDir fs root)) = filter ?P (WalkDir fs root)"
    by (auto simp: rename_candidate_def intro!: filter_cong)
  ultimately show ?thesis by (simp add: collect_candidates_def map_fst_map_filter_candidates)
qed

lemma collect_candidates_ready:
  "wf_fs fs \<Longrightarrow> rename_ready fs (rev (collect_candidates fs root))"
  unfolding rename_ready_def
proof (clarsimp)
  fix old new assume wf: "wf_fs fs" and pr: "(old, new) \<in> set (collect_candidates fs root)"
  then obtain v where v: "v \<in> set (WalkDir fs root)" and rc: "rename_candidate fs root v = Some (old, new)"
    by (auto simp: collect_candidates_def in_set_map_filter)
  note d = rename_candidate_SomeD [OF rc] and n = rename_candidate_new [OF rc]
  obtain m where rt: "lookup fs root = Some m" and vm: "v \<in> set (walkdir_from root m)"
    using v d by (auto simp: WalkDir_def split: option.splits)
  from walkdir_from_exists [OF wf_fs_lookup [OF wf rt] vm] obtain q where
    q: "v_path v = root @ q" "lookup m q \<noteq> None" by blast
  have "old \<noteq> []" using d q by auto
  moreover have "lookup fs old \<noteq> None" using d q rt by (simp add: lookup_append)
  moreover have "lookup fs new = None" using n by (simp add: fileExists_def os_stat_def split: option.splits)
  ultimately show "old \<noteq> [] \<and> butlast new = butlast old \<and> (\<exists>y. lookup fs old = Some y) \<and> lookup fs new = None"
    using n by auto
qed

lemma candidates_bottom_up:
  "wf_fs fs \<Longrightarrow> sorted_wrt (\<lambda>a b. \<not> strict_prefix (fst a) (fst b)) (rev (collect_candidates fs root))"
proof -
  assume "wf_fs fs"
  then have "sorted_wrt (\<lambda>v w. \<not> strict_prefix (v_path w) (v_path v)) (WalkDir fs root)"
    using WalkDir_ancestors_first ancestors_first_sorted_wrt by blast
  then have "sorted_wrt (\<lambda>a b. \<not> strict_prefix (fst b) (fst a)) (collect_candidates fs root)"
    unfolding collect_candidates_def
    by (rule sorted_wrt_map_filter) (auto dest!: rename_candidate_SomeD)
  then show ?thesis by (simp add: sorted_wrt_rev)
qed


lemma apply_renames_frame:
  "\<forall>(old, new) \<in> set ps. parallel old q \<and> parallel new q \<Longrightarrow>
     lookup (fst (apply_renames dry fs ps)) q = lookup fs q"
proof (induction ps arbitrary: fs)
  case (Cons p ps)
  obtain old new where p: "p = (old, new)" by (cases p)
  obtain fs1 ms1 where r: "rename_one dry fs old new = (fs1, ms1)" by (cases "rename_one dry fs old new")
  have l1: "lookup fs1 q = lookup fs q"
    using Cons.prems p r by (auto simp: rename_one_def dest: lookup_os_rename_other split: sum.splits if_splits)
  have "lookup (fst (apply_renames dry fs1 ps)) q = lookup fs1 q" using Cons.IH Cons.prems by simp
  then show ?case using l1 by (cases "apply_renames dry fs1 ps") (simp add: p r)
qed simp

lemma collect_candidates_below:
  "(old, new) \<in> set (collect_candidates fs root) \<Longrightarrow> \<exists>x y. old = root @ x \<and> new = root @ y"
proof -
  assume "(old, new) \<in> set (collect_candidates fs root)"
  then obtain v where v: "v \<in> set (WalkDir fs root)" and rc: "rename_candidate fs root v = Some (old, new)"
    by (auto simp: collect_candidates_def in_set_map_filter)
  have "prefix root (v_path v)" using v by (auto simp: WalkDir_def dest: walkdir_from_paths split: option.splits)
  then have "prefix root old" using rename_candidate_SomeD [OF rc] by simp
  then obtain x where x: "old = root @ x" by (auto simp: prefix_def)
  have "x \<noteq> []" using rename_candidate_SomeD [OF rc] x by auto
  then have "butlast new = root @ butlast x"
    using x rename_candidate_new [OF rc] by (simp add: butlast_append)
  moreover have "new = butlast new @ [last new]"
    using rename_candidate_new [OF rc] by (intro append_butlast_last_id [symmetric]) blast
  ultimately have "new = root @ (butlast x @ [last new])" by simp
  then show ?thesis using x by blast
qed

text \<open>C10: when the targets of the pairs are distinct, a live run carries out every planned
  rename, bottom-up, and reports no failure: the messages are exactly the pairs of step 1 in
  reverse walk order.\<close>

theorem live_run_renames_all:
  assumes "wf_fs fs" "root \<noteq> []" "lookup fs root = Some (Dir r cs)"
    and "distinct (map snd (collect_candidates fs root))"
  shows "fst (main_rename False [root] fs) =
           Finished False (length (collect_candidates fs root))
             (map (\<lambda>(old, new). Planned old new) (rev (collect_candidates fs root)))"
proof -
  have "snd (apply_renames False fs (rev (collect_candidates fs root))) =
          map (\<lambda>(old, new). Planned old new) (rev (collect_candidates fs root))"
    using assms(1,4)
    by (intro apply_renames_ready)
      (simp_all add: collect_candidates_ready collect_candidates_distinct_old candidates_bottom_up rev_map [symmetric])
  then show ?thesis using assms(2,3)
    by (cases "apply_renames False fs (rev (collect_candidates fs root))")
      (simp add: main_rename_def os_stat_def Let_def)
qed

theorem live_run_renames_all_witness:
  "wf_fs (Dir True [(''r'', Dir True [(''a b'', File True (Plain ''1'')), (''c+d'', File True (Plain ''2''))])]) \<and> [''r''] \<noteq> [] \<and> lookup (Dir True [(''r'', Dir True [(''a b'', File True (Plain ''1'')), (''c+d'', File True (Plain ''2''))])]) [''r''] = Some (Dir True [(''a b'', File True (Plain ''1'')), (''c+d'', File True (Plain ''2''))]) \<and>
   distinct (map snd (collect_candidates (Dir True [(''r'', Dir True [(''a b'', File True (Plain ''1'')), (''c+d'', File True (Plain ''2''))])]) [''r''])) \<and>
   fst (main_rename False [[''r'']] (Dir True [(''r'', Dir True [(''a b'', File True (Plain ''1'')), (''c+d'', File True (Plain ''2''))])])) =
     Finished False 2 [Planned [''r'', ''c+d''] [''r'', ''c_PLUS_d''], Planned [''r'', ''a b''] [''r'', ''a__b'']]"
proof -
  have h: "wf_fs (Dir True [(''r'', Dir True [(''a b'', File True (Plain ''1'')), (''c+d'', File True (Plain ''2''))])])" "[''r''] \<noteq> []"
    "lookup (Dir True [(''r'', Dir True [(''a b'', File True (Plain ''1'')), (''c+d'', File True (Plain ''2''))])]) [''r''] = Some (Dir True [(''a b'', File True (Plain ''1'')), (''c+d'', File True (Plain ''2''))])"
    "distinct (map snd (collect_candidates (Dir True [(''r'', Dir True [(''a b'', File True (Plain ''1'')), (''c+d'', File True (Plain ''2''))])]) [''r'']))"
    by (simp add: fs_name_def, simp, simp, code_simp)
  have c: "collect_candidates (Dir True [(''r'', Dir True [(''a b'', File True (Plain ''1'')), (''c+d'', File True (Plain ''2''))])]) [''r''] = [([''r'', ''a b''], [''r'', ''a__b'']), ([''r'', ''c+d''], [''r'', ''c_PLUS_d''])]"
    by code_simp
  show ?thesis using h live_run_renames_all [OF h] by (simp add: c)
qed

text \<open>C12: the renamer changes nothing outside its root folder: every path that is neither
  inside nor above the root resolves after the run, dry or live, as before (every pair of
  step 1 renames a path below the root to a path below the root).\<close>

theorem renamer_stays_inside:
  assumes "parallel q root"
  shows "lookup (snd (main_rename dry (root # rest) fs)) q = lookup fs q"
proof -
  have "\<forall>(old, new) \<in> set (rev (collect_candidates fs root)). parallel old q \<and> parallel new q"
    using collect_candidates_below parallel_append [OF parallel_sym [OF assms]] by fastforce
  then have "lookup (fst (apply_renames dry fs (rev (collect_candidates fs root)))) q = lookup fs q"
    by (rule apply_renames_frame)
  then show ?thesis
    by (cases "apply_renames dry fs (rev (collect_candidates fs root))")
      (auto simp: main_rename_def os_stat_def Let_def split: option.splits node.splits if_splits sum.splits)
qed

theorem renamer_stays_inside_witness:
  "parallel [''other''] [''r''] \<and>
   lookup (snd (main_rename False [[''r'']] (Dir True [(''other'', Dir True [(''a b'', File True (Plain ''0''))]), (''r'', Dir True [(''c d'', File True (Plain ''1''))])]))) [''other''] = Some (Dir True [(''a b'', File True (Plain ''0''))])"
proof -
  have h: "parallel [''other''] [''r'']" by (simp add: parallel_def)
  show ?thesis using h renamer_stays_inside [OF h, of False "[]" "(Dir True [(''other'', Dir True [(''a b'', File True (Plain ''0''))]), (''r'', Dir True [(''c d'', File True (Plain ''1''))])])"] by simp
qed

end
