(* ===== verification/ArchiveRun.thy ===== *)
theory ArchiveRun
  imports Archiver
begin

text \<open>
  What a run of \<open>src/compress.go\<close> can touch. \<open>main\<close> creates the backup directory
  \<open>root_original\<close> with \<open>os.MkdirAll\<close> (line 52), and each task writes
  \<open>root/k.zip\<close>, may remove it, and moves \<open>root/k\<close> to \<open>root_original/k\<close>
  (\<open>processTask\<close>). The frame lemmas of \<open>FileTree\<close> and \<open>Archiver\<close> compose to: a
  path that is neither inside nor above the root and the backup directory resolves after
  the run exactly as before.
\<close>

lemma prepare_tasks_shape:
  "\<forall>t \<in> set ts. subfolder t = root @ [folderName t] \<and> zipPath t = root @ [folderName t @ ''.zip''] \<Longrightarrow>
   \<forall>t \<in> set (prepare_tasks incl fs root entries ts).
     subfolder t = root @ [folderName t] \<and> zipPath t = root @ [folderName t @ ''.zip'']"
proof (induction entries arbitrary: ts)
  case (Cons e entries)
  show ?case using Cons.prems by (cases e) (auto intro!: Cons.IH)
qed simp

text \<open>C11: the archiver changes nothing outside its root folder and the backup folder: every
  path that is neither inside nor above either of them resolves after the run as before,
  whatever the outcome of the run.\<close>

theorem archiver_stays_inside:
  assumes "parallel q root" "parallel q (original_dir root)"
  shows "lookup (snd (main_compress incl (root # rest) fs)) q = lookup fs q"
proof (cases "root = []")
  case True
  then show ?thesis by (simp add: main_compress_def)
next
  case ne: False
  show ?thesis
  proof (cases "\<exists>cs. lookup fs root = Some (Dir True cs) \<and> (\<exists>fs1. os_mkdirall fs (original_dir root) = Inr fs1)")
    case False
    then show ?thesis using ne
      by (auto simp: main_compress_Cons split: option.splits node.splits sum.splits)
  next
    case True
    then obtain cs fs1 where rt: "lookup fs root = Some (Dir True cs)"
      and mk: "os_mkdirall fs (original_dir root) = Inr fs1" by blast
    let ?ts = "prepare_tasks incl fs1 root (sort_key fst cs) []"
    have f1: "lookup fs1 q = lookup fs q"
      using os_mkdirall_frame [OF mk] assms(2) by (simp add: parallel_def)
    have "parallel (subfolder t) q \<and> parallel (original_dir root @ [folderName t]) q \<and> parallel (zipPath t) q"
      if "t \<in> set ?ts" for t
      using prepare_tasks_shape [of "[]" root incl fs1 "sort_key fst cs"] that parallel_append [OF parallel_sym [OF assms(1)]]
        parallel_append [OF parallel_sym [OF assms(2)]] by simp
    then have "lookup (fst (process_tasks incl (original_dir root) (length ?ts) 0 fs1 ?ts)) q = lookup fs1 q"
      by (intro process_tasks_keep) blast
    then show ?thesis using ne rt mk f1 by (simp add: main_compress_Cons)
  qed
qed

theorem archiver_stays_inside_witness:
  "parallel [''other''] [''root''] \<and> parallel [''other''] (original_dir [''root'']) \<and>
   lookup (snd (main_compress (\<lambda>k. True) [[''root'']]
     (Dir True [(''other'', Dir True [(''y'', File True (Plain ''0''))]),
                (''root'', Dir True [(''A'', Dir True [(''x.d'', File True (Plain ''1''))])])]))) [''other''] =
   Some (Dir True [(''y'', File True (Plain ''0''))])"
proof -
  have h: "parallel [''other''] [''root'']" "parallel [''other''] (original_dir [''root''])"
    by (simp_all add: parallel_def original_dir_def)
  show ?thesis using h archiver_stays_inside [OF h, of "\<lambda>k. True" "[]"] by simp
qed

end
